theory Spec2Isabelle
  imports Main "HOL-Library.Sublist"
begin

section \<open>The USB printer session of \<open>src/index.js\<close>\<close>

text \<open>
  The module exports one constructor, \<open>USB\<close>, an event emitter that owns at most one
  device of the native transport (the \<open>usb\<close> package). The transport is not part of the
  module: every object it hands out is modelled by a record that holds, next to the data the
  code reads, the answer of each native method the code calls on it (returns, or throws an
  error). A completion that the transport delivers later (the ready notification of
  \<open>setAltSetting\<close>, the end of a transfer, the end of a device reset) is a function of
  its own, applied to the session as it is at that moment.

  The repository holds two revisions of the module. The embedding follows the current
  one, \<open>src/index.js\<close>; the older one has no resetting and no in-flight flag, reads 64
  bytes, stores each endpoint as soon as it sees one and leaves the closing flag set when
  \<open>close\<close> finds nothing to close.

  What the module does besides changing its fields is returned as a list of events, in the
  order the code produces them: calls of the caller's callback, notifications raised with
  \<open>emit\<close>, and native calls. Callbacks and listeners are observers: they are recorded,
  they do not throw and they do not call back into the session while it runs.
\<close>

subsection \<open>Errors, transport objects, events\<close>

datatype error =
    Error string          \<comment> \<open>\<open>new Error(message)\<close> created by the module\<close>
  | TypeError             \<comment> \<open>a member read or a method call on a value that has none\<close>
  | TransportError nat    \<comment> \<open>any error raised or reported by the native transport\<close>

text \<open>The messages of the module's own errors, under the names the specification uses.\<close>

abbreviation Busy_resetting :: error where
  "Busy_resetting \<equiv> Error ''USB is resetting''"

abbreviation Busy :: error where
  "Busy \<equiv> Error ''USB busy (reset/close)''"

abbreviation NoDeviceBound :: error where
  "NoDeviceBound \<equiv> Error ''No USB printer device found''"

abbreviation EndpointPairNotFound :: error where
  "EndpointPairNotFound \<equiv> Error ''Can not find endpoint pair (in+out) from printer''"

abbreviation NotReady :: error where
  "NotReady \<equiv> Error ''USB endpoint not ready''"

abbreviation ReadInProgress :: error where
  "ReadInProgress \<equiv> Error ''USB read already in progress''"

abbreviation NoDeviceToReset :: error where
  "NoDeviceToReset \<equiv> Error ''No device to reset''"

type_synonym buffer = "nat list"

record usb_endpoint =
  ep_ref :: nat                          \<comment> \<open>the identity of the endpoint object\<close>
  direction :: string
  transfer_throws :: "error option"      \<comment> \<open>\<open>transfer\<close> throws while submitting\<close>

record usb_interface =
  if_ref :: nat
  altSetting :: nat
  setAltSetting_throws :: "error option"
  isKernelDriverActive :: "error + bool"
  detachKernelDriver_throws :: "error option"
  claim_throws :: "error option"
  endpoints :: "usb_endpoint list"

record interface_descriptor =
  bInterfaceClass :: nat

record usb_device =
  dev_ref :: nat                         \<comment> \<open>the identity of the device object\<close>
  configDescriptor :: "error + interface_descriptor list list"
    \<comment> \<open>\<open>device.configDescriptor.interfaces\<close>: per interface, its alternate settings;
        \<open>Inl\<close> when reading it throws\<close>
  open_throws :: "error option"
  interfaces :: "usb_interface list"
  close_throws :: "error option"
  reset_throws :: "error option"         \<comment> \<open>\<open>reset\<close> throws while submitting\<close>

text \<open>
  The arguments of the constructor are untyped: a number, a device handle, or nothing. A
  number is truthy when it is not 0.
\<close>

datatype arg = Undefined | Num nat | Handle usb_device

fun truthy :: "arg \<Rightarrow> bool" where
  "truthy Undefined = False"
| "truthy (Num n) = (n \<noteq> 0)"
| "truthy (Handle d) = True"

record transport =
  getDeviceList :: "usb_device list"
  findByIds :: "arg \<Rightarrow> arg \<Rightarrow> usb_device option"

datatype cb_arg = NoArg | Self | Buf buffer

datatype emit_arg = ADevice "usb_device option" | AData buffer | AError error

datatype native =
    DevOpen usb_device
  | DevClose usb_device
  | DevReset usb_device
  | SetAltSetting usb_interface nat
  | IsKernelDriverActive usb_interface
  | DetachKernelDriver usb_interface
  | Claim usb_interface
  | SetTimeout usb_endpoint nat
  | TransferOut usb_endpoint buffer
  | TransferIn usb_endpoint nat
  | RemoveListener string

datatype event =
    Callback "error option" cb_arg   \<comment> \<open>\<open>callback(err, value)\<close>; \<open>None\<close> is a falsy first argument\<close>
  | Emit string emit_arg             \<comment> \<open>\<open>this.emit(name, argument)\<close>\<close>
  | Native native

fun is_callback :: "event \<Rightarrow> bool" where
  "is_callback (Callback err v) = True"
| "is_callback (Emit n a) = False"
| "is_callback (Native c) = False"

fun is_native :: "event \<Rightarrow> bool" where
  "is_native (Native c) = True"
| "is_native (Callback err v) = False"
| "is_native (Emit n a) = False"

fun is_emit :: "event \<Rightarrow> bool" where
  "is_emit (Emit n a) = True"
| "is_emit (Callback err v) = False"
| "is_emit (Native c) = False"

subsection \<open>The session\<close>

record session =
  device :: "usb_device option"
  endpoint :: "usb_endpoint option"            \<comment> \<open>the OUT endpoint\<close>
  deviceToPcEndpoint :: "usb_endpoint option"  \<comment> \<open>the IN endpoint\<close>
  isOpen :: bool
  isClosing :: bool
  isResetting :: bool
  readInFlight :: bool
  onDetach_set :: bool                         \<comment> \<open>\<open>this._onDetach\<close> holds the handler\<close>
  onAttach_set :: bool

text \<open>
  A method is an action on the session: it returns the session it leaves and the events it
  produced, each with the session as it was at that moment (what an observer called then
  would see). The statements of the source are the elements of a \<open>block\<close>.
\<close>

type_synonym trace = "(event \<times> session) list"

type_synonym action = "session \<Rightarrow> session \<times> trace"

definition skip :: action where
  "skip s = (s, [])"

definition assign :: "(session \<Rightarrow> session) \<Rightarrow> action" where
  "assign f s = (f s, [])"

definition obs :: "event \<Rightarrow> action" where
  "obs e s = (s, [(e, s)])"

definition seq :: "action \<Rightarrow> action \<Rightarrow> action" where
  "seq a b s = (case a s of (s1, t1) \<Rightarrow> case b s1 of (s2, t2) \<Rightarrow> (s2, t1 @ t2))"

fun block :: "action list \<Rightarrow> action" where
  "block [] = skip"
| "block (a # as) = seq a (block as)"

text \<open>\<open>callback && callback(err, value)\<close>: nothing happens when no callback was supplied.\<close>

definition call :: "bool \<Rightarrow> error option \<Rightarrow> cb_arg \<Rightarrow> action" where
  "call cb err v = (if cb then obs (Callback err v) else skip)"

definition events :: "trace \<Rightarrow> event list" where
  "events t = map fst t"

definition callbacks :: "trace \<Rightarrow> event list" where
  "callbacks t = filter is_callback (events t)"

definition natives :: "trace \<Rightarrow> event list" where
  "natives t = filter is_native (events t)"

definition emits :: "trace \<Rightarrow> event list" where
  "emits t = filter is_emit (events t)"

subsection \<open>\<open>USB.findPrinter\<close>\<close>

text \<open>
  \<open>Array.prototype.filter\<close> keeps an element when the predicate's result is truthy; the
  predicates return a \<open>length\<close>, truthy when it is not 0. An exception while a device is
  inspected is caught and the device is dropped.
\<close>

definition is_printer :: "usb_device \<Rightarrow> bool" where
  "is_printer dev =
     (case configDescriptor dev of
        Inl e \<Rightarrow> False
      | Inr ifaces \<Rightarrow>
          length (filter (\<lambda>iface.
            length (filter (\<lambda>conf. bInterfaceClass conf = 7) iface) \<noteq> 0) ifaces) \<noteq> 0)"

definition findPrinter :: "transport \<Rightarrow> usb_device list" where
  "findPrinter tr = filter is_printer (getDeviceList tr)"

subsection \<open>The constructor and the hot-plug handlers\<close>

text \<open>
  With a truthy \<open>vid\<close> and a falsy \<open>pid\<close> the constructor stores \<open>vid\<close> itself as
  the device. A number stored there is a value on which every member read and method call
  raises a type error, which is what \<open>number_as_device\<close> says.
\<close>

definition number_as_device :: "nat \<Rightarrow> usb_device" where
  "number_as_device n =
     \<lparr>dev_ref = n, configDescriptor = Inl TypeError, open_throws = Some TypeError,
      interfaces = [], close_throws = Some TypeError, reset_throws = Some TypeError\<rparr>"

definition first_printer :: "transport \<Rightarrow> usb_device option" where
  "first_printer tr = (case findPrinter tr of [] \<Rightarrow> None | d # ds \<Rightarrow> Some d)"

definition USB_new :: "transport \<Rightarrow> arg \<Rightarrow> arg \<Rightarrow> session" where
  "USB_new tr vid pid =
     \<lparr>device =
        (if truthy vid \<and> truthy pid then findByIds tr vid pid
         else if truthy vid then
           (case vid of
              Handle d \<Rightarrow> Some d
            | Num n \<Rightarrow> Some (number_as_device n)
            | Undefined \<Rightarrow> None)
         else first_printer tr),
      endpoint = None, deviceToPcEndpoint = None,
      isOpen = False, isClosing = False, isResetting = False, readInFlight = False,
      onDetach_set = True, onAttach_set = True\<rparr>"

definition onDetach :: "usb_device \<Rightarrow> action" where
  "onDetach dev s =
     (if device s = Some dev then
        block [assign (\<lambda>s. s\<lparr>isOpen := False\<rparr>),
               assign (\<lambda>s. s\<lparr>endpoint := None\<rparr>),
               assign (\<lambda>s. s\<lparr>deviceToPcEndpoint := None\<rparr>),
               obs (Emit ''detach'' (ADevice (Some dev))),
               obs (Emit ''disconnect'' (ADevice (Some dev))),
               assign (\<lambda>s. s\<lparr>device := None\<rparr>)] s
      else skip s)"

definition onAttach :: "transport \<Rightarrow> usb_device \<Rightarrow> action" where
  "onAttach tr dev =
     block [\<lambda>s. if device s = None then assign (\<lambda>s. s\<lparr>device := first_printer tr\<rparr>) s
                 else skip s,
            \<lambda>s. if device s = Some dev then obs (Emit ''attach'' (ADevice (Some dev))) s
                 else skip s]"

subsection \<open>\<open>open\<close>\<close>

text \<open>
  The synchronous part: the guards, the native open, and one \<open>setAltSetting\<close> per
  interface. A throw of \<open>setAltSetting\<close> leaves the \<open>forEach\<close>, so the interfaces after
  it are never set up; those before it stay pending. The result lists the pending
  interfaces next to the session and the trace.
\<close>

fun submit :: "usb_interface list \<Rightarrow> event list \<times> usb_interface list \<times> error option" where
  "submit [] = ([], [], None)"
| "submit (i # is) =
     (case setAltSetting_throws i of
        Some e \<Rightarrow> ([Native (SetAltSetting i (altSetting i))], [], Some e)
      | None \<Rightarrow>
          (case submit is of (evs, pending, r) \<Rightarrow>
             (Native (SetAltSetting i (altSetting i)) # evs, i # pending, r)))"

definition open_usb :: "bool \<Rightarrow> session \<Rightarrow> (session \<times> trace) \<times> usb_interface list" where
  "open_usb cb s =
     (if isResetting s then (call cb (Some Busy_resetting) NoArg s, [])
      else case device s of
        None \<Rightarrow> (call cb (Some NoDeviceBound) NoArg s, [])
      | Some d \<Rightarrow>
          if isOpen s then (call cb None Self s, [])
          else
            (case open_throws d of
               Some e \<Rightarrow> (block [obs (Native (DevOpen d)), call cb (Some e) NoArg] s, [])
             | None \<Rightarrow>
                 (case submit (interfaces d) of (evs, pending, r) \<Rightarrow>
                    (block (obs (Native (DevOpen d)) # map obs evs @
                            (case r of Some e \<Rightarrow> [call cb (Some e) NoArg] | None \<Rightarrow> [])) s,
                     pending))))"

text \<open>
  The ready notification of one interface. \<open>counter\<close> is the variable of the \<open>open\<close>
  call that started the setup, shared by the notifications of that call.
\<close>

definition detach_driver :: "string \<Rightarrow> usb_interface \<Rightarrow> event list \<times> error option" where
  "detach_driver platform iface =
     (if platform = ''win32'' then ([], None)
      else
        (case isKernelDriverActive iface of
           Inl e \<Rightarrow> ([Native (IsKernelDriverActive iface)], Some e)
         | Inr active \<Rightarrow>
             (Native (IsKernelDriverActive iface) #
                (if active then [Native (DetachKernelDriver iface)] else []), None)))"

definition scan :: "usb_endpoint list \<Rightarrow> usb_endpoint option \<times> usb_endpoint option" where
  "scan eps =
     foldl (\<lambda>(outEp, inEp) ep.
              (if direction ep = ''out'' \<and> outEp = None then Some ep else outEp,
               if direction ep = ''in'' \<and> inEp = None then Some ep else inEp))
           (None, None) eps"

definition record_pair :: "bool \<Rightarrow> usb_endpoint \<Rightarrow> usb_endpoint \<Rightarrow> action" where
  "record_pair cb outEp inEp =
     block [assign (\<lambda>s. s\<lparr>endpoint := Some outEp\<rparr>),
            assign (\<lambda>s. s\<lparr>deviceToPcEndpoint := Some inEp\<rparr>),
            obs (Native (SetTimeout outEp 15000)),
            obs (Native (SetTimeout inEp 700)),
            assign (\<lambda>s. s\<lparr>isOpen := True\<rparr>),
            assign (\<lambda>s. s\<lparr>isClosing := False\<rparr>),
            \<lambda>s. obs (Emit ''connect'' (ADevice (device s))) s,
            call cb None Self]"

text \<open>
  \<open>++counter === self.device.interfaces.length && !self.endpoint\<close>, with the counter
  already incremented; reading \<open>interfaces\<close> of a device that is gone raises.
\<close>

definition count_exhausted :: "bool \<Rightarrow> nat \<Rightarrow> action" where
  "count_exhausted cb counter s =
     (case device s of
        None \<Rightarrow> call cb (Some TypeError) NoArg s
      | Some d \<Rightarrow>
          if counter = length (interfaces d) \<and> endpoint s = None
          then call cb (Some EndpointPairNotFound) NoArg s
          else skip s)"

definition iface_ready ::
  "string \<Rightarrow> bool \<Rightarrow> usb_interface \<Rightarrow> nat \<Rightarrow> session \<Rightarrow> nat \<times> session \<times> trace" where
  "iface_ready platform cb iface counter s =
     (case detach_driver platform iface of
        (evs, Some e) \<Rightarrow> (counter, block (map obs evs @ [call cb (Some e) NoArg]) s)
      | (evs, None) \<Rightarrow>
          (case claim_throws iface of
             Some e \<Rightarrow>
               (counter,
                block (map obs evs @ [obs (Native (Claim iface)), call cb (Some e) NoArg]) s)
           | None \<Rightarrow>
               (case scan (endpoints iface) of (outEp, inEp) \<Rightarrow>
                  (case (outEp, inEp) of
                     (Some ep_out, Some ep_in) \<Rightarrow>
                       if endpoint s = None \<and> deviceToPcEndpoint s = None
                       then (counter,
                             block (map obs evs @
                               [obs (Native (Claim iface)), record_pair cb ep_out ep_in]) s)
                       else (Suc counter,
                             block (map obs evs @
                               [obs (Native (Claim iface)),
                                count_exhausted cb (Suc counter)]) s)
                   | _ \<Rightarrow>
                       (Suc counter,
                        block (map obs evs @
                          [obs (Native (Claim iface)),
                           count_exhausted cb (Suc counter)]) s)))))"

text \<open>
  A run of \<open>open\<close>: the synchronous part, then the ready notifications in the order the
  transport delivers them, one after the other, with nothing else in between. \<open>order\<close>
  lists the interfaces as they complete; only those whose setup was submitted count.
\<close>

fun deliver ::
  "string \<Rightarrow> bool \<Rightarrow> usb_interface list \<Rightarrow> nat \<Rightarrow> session \<Rightarrow> nat \<times> session \<times> trace" where
  "deliver platform cb [] counter s = (counter, s, [])"
| "deliver platform cb (i # is) counter s =
     (case iface_ready platform cb i counter s of (c1, s1, t1) \<Rightarrow>
        case deliver platform cb is c1 s1 of (c2, s2, t2) \<Rightarrow> (c2, s2, t1 @ t2))"

definition open_run :: "string \<Rightarrow> bool \<Rightarrow> usb_interface list \<Rightarrow> session \<Rightarrow> session \<times> trace" where
  "open_run platform cb order s =
     (case open_usb cb s of ((s1, t1), pending) \<Rightarrow>
        case deliver platform cb (filter (\<lambda>i. i \<in> set pending) order) 0 s1 of
          (c, s2, t2) \<Rightarrow> (s2, t1 @ t2))"

subsection \<open>\<open>write\<close>, \<open>read\<close>, \<open>reset\<close>, \<open>close\<close>, \<open>destroy\<close>\<close>

definition write_usb :: "buffer \<Rightarrow> bool \<Rightarrow> action" where
  "write_usb data cb s =
     (if isResetting s \<or> isClosing s then call cb (Some Busy) NoArg s
      else case endpoint s of
        None \<Rightarrow> call cb (Some NotReady) NoArg s
      | Some ep \<Rightarrow>
          block [obs (Emit ''data'' (AData data)),
                 obs (Native (TransferOut ep data)),
                 case transfer_throws ep of
                   Some e \<Rightarrow> call cb (Some e) NoArg
                 | None \<Rightarrow> skip] s)"

text \<open>The completion of the OUT transfer, with the error the transport reports, if any.\<close>

definition write_complete :: "error option \<Rightarrow> bool \<Rightarrow> action" where
  "write_complete err cb =
     block [case err of Some e \<Rightarrow> obs (Emit ''error'' (AError e)) | None \<Rightarrow> skip,
            call cb err NoArg]"

definition read_usb :: "bool \<Rightarrow> action" where
  "read_usb cb s =
     (if isResetting s \<or> isClosing s then call cb (Some Busy) NoArg s
      else case deviceToPcEndpoint s of
        None \<Rightarrow> call cb None (Buf []) s
      | Some ep \<Rightarrow>
          if readInFlight s then call cb (Some ReadInProgress) NoArg s
          else
            block [assign (\<lambda>s. s\<lparr>readInFlight := True\<rparr>),
                   obs (Native (TransferIn ep 8)),
                   case transfer_throws ep of
                     Some e \<Rightarrow>
                       block [assign (\<lambda>s. s\<lparr>readInFlight := False\<rparr>),
                              call cb (Some e) (Buf [])]
                   | None \<Rightarrow> skip] s)"

text \<open>
  The completion of the IN transfer; \<open>data\<close> is \<open>None\<close> when the transport hands over
  something that is not a buffer.
\<close>

definition read_complete :: "error option \<Rightarrow> buffer option \<Rightarrow> bool \<Rightarrow> action" where
  "read_complete err data cb =
     block [assign (\<lambda>s. s\<lparr>readInFlight := False\<rparr>),
            case err of
              Some e \<Rightarrow> call cb (Some e) (Buf [])
            | None \<Rightarrow> call cb None (Buf (case data of Some b \<Rightarrow> b | None \<Rightarrow> []))]"

definition reset_usb :: "bool \<Rightarrow> action" where
  "reset_usb cb s =
     (case device s of
        None \<Rightarrow> call cb (Some NoDeviceToReset) NoArg s
      | Some d \<Rightarrow>
          if isResetting s then call cb None NoArg s
          else
            block [assign (\<lambda>s. s\<lparr>isResetting := True\<rparr>),
                   obs (Native (DevReset d)),
                   case reset_throws d of
                     Some e \<Rightarrow>
                       block [assign (\<lambda>s. s\<lparr>isResetting := False\<rparr>),
                              assign (\<lambda>s. s\<lparr>readInFlight := False\<rparr>),
                              call cb (Some e) NoArg]
                   | None \<Rightarrow> skip] s)"

text \<open>The completion of the device reset, with the error the transport reports, if any.\<close>

definition reset_complete :: "error option \<Rightarrow> bool \<Rightarrow> action" where
  "reset_complete err cb =
     block [assign (\<lambda>s. s\<lparr>isResetting := False\<rparr>),
            assign (\<lambda>s. s\<lparr>readInFlight := False\<rparr>),
            assign (\<lambda>s. s\<lparr>isOpen := False\<rparr>),
            assign (\<lambda>s. s\<lparr>endpoint := None\<rparr>),
            assign (\<lambda>s. s\<lparr>deviceToPcEndpoint := None\<rparr>),
            call cb err NoArg]"

definition close_local :: "bool \<Rightarrow> action" where
  "close_local cb =
     block [assign (\<lambda>s. s\<lparr>isOpen := False\<rparr>),
            assign (\<lambda>s. s\<lparr>endpoint := None\<rparr>),
            assign (\<lambda>s. s\<lparr>deviceToPcEndpoint := None\<rparr>),
            assign (\<lambda>s. s\<lparr>isClosing := False\<rparr>),
            call cb None NoArg]"

definition close_native :: "bool \<Rightarrow> usb_device \<Rightarrow> action" where
  "close_native cb d =
     block [obs (Native (DevClose d)),
            assign (\<lambda>s. s\<lparr>isOpen := False\<rparr>),
            assign (\<lambda>s. s\<lparr>readInFlight := False\<rparr>),
            assign (\<lambda>s. s\<lparr>endpoint := None\<rparr>),
            assign (\<lambda>s. s\<lparr>deviceToPcEndpoint := None\<rparr>),
            assign (\<lambda>s. s\<lparr>isClosing := False\<rparr>),
            call cb None NoArg,
            \<lambda>s. obs (Emit ''close'' (ADevice (device s))) s]"

definition close_usb :: "bool \<Rightarrow> action" where
  "close_usb cb s =
     (if isClosing s then call cb None NoArg s
      else
        block [assign (\<lambda>s. s\<lparr>isClosing := True\<rparr>),
               \<lambda>s. case device s of
                      None \<Rightarrow> close_local cb s
                    | Some d \<Rightarrow> if \<not> isOpen s then close_local cb s else close_native cb d s] s)"

text \<open>
  \<open>destroy\<close> closes with a callback of its own that does nothing, so no callback of the
  caller is recorded.
\<close>

definition destroy :: action where
  "destroy =
     block [\<lambda>s. if onDetach_set s then obs (Native (RemoveListener ''detach'')) s else skip s,
            \<lambda>s. if onAttach_set s then obs (Native (RemoveListener ''attach'')) s else skip s,
            assign (\<lambda>s. s\<lparr>onDetach_set := False\<rparr>),
            assign (\<lambda>s. s\<lparr>onAttach_set := False\<rparr>),
            close_usb False,
            assign (\<lambda>s. s\<lparr>device := None\<rparr>),
            assign (\<lambda>s. s\<lparr>endpoint := None\<rparr>),
            assign (\<lambda>s. s\<lparr>deviceToPcEndpoint := None\<rparr>)]"

subsection \<open>\<open>USB.getDevice\<close>\<close>

text \<open>
  The promise is settled by the callback handed to \<open>open\<close>: \<open>reject(err)\<close> on a truthy
  error, \<open>resolve(device)\<close> otherwise, where \<open>device\<close> is the new session. A promise
  that is settled stays as it is.
\<close>

datatype promise = Pending | Resolved | Rejected error

fun settle :: "promise \<Rightarrow> event \<Rightarrow> promise" where
  "settle Pending (Callback (Some e) v) = Rejected e"
| "settle Pending (Callback None v) = Resolved"
| "settle p ev = p"

definition getDevice ::
  "transport \<Rightarrow> string \<Rightarrow> usb_interface list \<Rightarrow> arg \<Rightarrow> arg \<Rightarrow> promise \<times> session \<times> trace" where
  "getDevice tr platform order vid pid =
     (case open_run platform True order (USB_new tr vid pid) of
        (s, t) \<Rightarrow> (foldl settle Pending (events t), s, t))"

subsection \<open>The sessions a program can reach\<close>

text \<open>
  Every method runs to its end before the next one starts (one thread, and observers that
  do not call back), so the sessions a program can hold are those obtained from a new
  session by the methods, the hot-plug handlers while they are subscribed, and the
  completions of the transport, in any order and with any arguments.
\<close>

inductive reachable :: "session \<Rightarrow> bool" where
  new: "reachable (USB_new tr vid pid)"
| opened: "reachable s \<Longrightarrow> reachable (fst (fst (open_usb cb s)))"
| ready: "reachable s \<Longrightarrow> reachable (fst (snd (iface_ready platform cb iface counter s)))"
| written: "reachable s \<Longrightarrow> reachable (fst (write_usb data cb s))"
| write_completed: "reachable s \<Longrightarrow> reachable (fst (write_complete err cb s))"
| read: "reachable s \<Longrightarrow> reachable (fst (read_usb cb s))"
| read_completed: "reachable s \<Longrightarrow> reachable (fst (read_complete err buf cb s))"
| reset: "reachable s \<Longrightarrow> reachable (fst (reset_usb cb s))"
| reset_completed: "reachable s \<Longrightarrow> reachable (fst (reset_complete err cb s))"
| closed: "reachable s \<Longrightarrow> reachable (fst (close_usb cb s))"
| detached: "reachable s \<Longrightarrow> onDetach_set s \<Longrightarrow> reachable (fst (onDetach dev s))"
| attached: "reachable s \<Longrightarrow> onAttach_set s \<Longrightarrow> reachable (fst (onAttach tr dev s))"
| destroyed: "reachable s \<Longrightarrow> reachable (fst (destroy s))"

text \<open>
  What holds of every such session: no \<open>close\<close> is under way between two methods, and
  the open flag and the two endpoints are set and cleared together.
\<close>

definition consistent :: "session \<Rightarrow> bool" where
  "consistent s \<longleftrightarrow> \<not> isClosing s \<and> (isOpen s \<longleftrightarrow> endpoint s \<noteq> None)
     \<and> (endpoint s = None \<longleftrightarrow> deviceToPcEndpoint s = None)"

subsection \<open>Words of the specification\<close>

text \<open>
  An interface's setup raises when the kernel-driver query or the claim throws; it offers
  a pair when it has an endpoint of each direction.
\<close>

definition raises :: "string \<Rightarrow> usb_interface \<Rightarrow> bool" where
  "raises platform iface =
     ((platform \<noteq> ''win32'' \<and> isl (isKernelDriverActive iface)) \<or> claim_throws iface \<noteq> None)"

definition setup_error :: "string \<Rightarrow> usb_interface \<Rightarrow> error option" where
  "setup_error platform iface =
     (if platform \<noteq> ''win32'' \<and> isl (isKernelDriverActive iface)
      then Some (projl (isKernelDriverActive iface))
      else claim_throws iface)"

definition has_direction :: "string \<Rightarrow> usb_interface \<Rightarrow> bool" where
  "has_direction dir iface = (\<exists>ep \<in> set (endpoints iface). direction ep = dir)"

definition offers_pair :: "usb_interface \<Rightarrow> bool" where
  "offers_pair iface = (has_direction ''out'' iface \<and> has_direction ''in'' iface)"

text \<open>
  The pair a session holds comes from one interface: both endpoints are endpoints of it,
  the first an OUT and the second an IN endpoint.
\<close>

definition pair_of :: "usb_interface \<Rightarrow> session \<Rightarrow> bool" where
  "pair_of iface s =
     (\<exists>ep_out \<in> set (endpoints iface). \<exists>ep_in \<in> set (endpoints iface).
        direction ep_out = ''out'' \<and> direction ep_in = ''in''
        \<and> endpoint s = Some ep_out \<and> deviceToPcEndpoint s = Some ep_in)"

definition no_pair :: "session \<Rightarrow> bool" where
  "no_pair s = (endpoint s = None \<and> deviceToPcEndpoint s = None)"

text \<open>
  The calls of the callback that raising interfaces account for, each with the error its
  setup raised, and the interface a run of \<open>open\<close> settles on: one that does not raise and
  offers a pair.
\<close>

definition error_callbacks :: "string \<Rightarrow> usb_interface list \<Rightarrow> event list" where
  "error_callbacks platform ifaces =
     map (\<lambda>i. Callback (setup_error platform i) NoArg) (filter (raises platform) ifaces)"


text \<open>The native calls of one interface's setup, up to the claim.\<close>

definition setup_natives :: "string \<Rightarrow> usb_interface \<Rightarrow> event list" where
  "setup_natives platform iface =
     fst (detach_driver platform iface) @
     (if snd (detach_driver platform iface) = None then [Native (Claim iface)] else [])"

subsection \<open>Sample devices\<close>

definition ep0 :: usb_endpoint where
  "ep0 = \<lparr>ep_ref = 0, direction = ''out'', transfer_throws = None\<rparr>"

definition ep1 :: usb_endpoint where
  "ep1 = \<lparr>ep_ref = 1, direction = ''in'', transfer_throws = None\<rparr>"

definition iface_with :: "nat \<Rightarrow> error option \<Rightarrow> usb_endpoint list \<Rightarrow> usb_interface" where
  "iface_with n claim eps =
     \<lparr>if_ref = n, altSetting = 0, setAltSetting_throws = None,
      isKernelDriverActive = Inr False, detachKernelDriver_throws = None,
      claim_throws = claim, endpoints = eps\<rparr>"

definition iface_both :: usb_interface where
  "iface_both = iface_with 0 None [ep0, ep1]"

definition iface_out_only :: usb_interface where
  "iface_out_only = iface_with 1 None [ep0]"

definition iface_in_only :: usb_interface where
  "iface_in_only = iface_with 2 None [ep1]"

definition iface_unclaimable :: usb_interface where
  "iface_unclaimable = iface_with 3 (Some (TransportError 3)) []"

definition printer_with :: "nat \<Rightarrow> usb_interface list \<Rightarrow> usb_device" where
  "printer_with n ifaces =
     \<lparr>dev_ref = n, configDescriptor = Inr [[\<lparr>bInterfaceClass = 7\<rparr>]], open_throws = None,
      interfaces = ifaces, close_throws = None, reset_throws = None\<rparr>"

definition unreadable_device :: usb_device where
  "unreadable_device =
     \<lparr>dev_ref = 8, configDescriptor = Inl (TransportError 13), open_throws = None,
      interfaces = [], close_throws = None, reset_throws = None\<rparr>"

definition hub_device :: usb_device where
  "hub_device =
     \<lparr>dev_ref = 9, configDescriptor = Inr [[\<lparr>bInterfaceClass = 9\<rparr>]], open_throws = None,
      interfaces = [], close_throws = None, reset_throws = None\<rparr>"

definition broken_device :: usb_device where
  "broken_device =
     \<lparr>dev_ref = 7, configDescriptor = Inr [[\<lparr>bInterfaceClass = 7\<rparr>]],
      open_throws = Some (TransportError 5),
      interfaces = [], close_throws = None, reset_throws = None\<rparr>"

definition host :: "usb_device list \<Rightarrow> transport" where
  "host devs = \<lparr>getDeviceList = devs, findByIds = (\<lambda>vid pid. None)\<rparr>"

definition session_on :: "usb_device \<Rightarrow> session" where
  "session_on dev = USB_new (host []) (Handle dev) Undefined"

definition unbound_session :: session where
  "unbound_session = USB_new (host []) Undefined Undefined"

definition open_session :: session where
  "open_session =
     fst (open_run ''linux'' True [iface_both] (session_on (printer_with 1 [iface_both])))"

text \<open>
  A printer whose only OUT endpoint and only IN endpoint sit on two interfaces, and one
  with an interface that offers a pair next to an interface that cannot be claimed.
\<close>

definition split_session :: session where
  "split_session = session_on (printer_with 5 [iface_out_only, iface_in_only])"


text \<open>A printer whose OUT endpoint throws when a transfer is submitted, opened.\<close>

definition ep_stuck :: usb_endpoint where
  "ep_stuck = \<lparr>ep_ref = 2, direction = ''out'', transfer_throws = Some (TransportError 9)\<rparr>"

definition iface_stuck :: usb_interface where
  "iface_stuck = iface_with 4 None [ep_stuck, ep1]"

definition stuck_session :: session where
  "stuck_session =
     fst (open_run ''linux'' True [iface_stuck] (session_on (printer_with 4 [iface_stuck])))"

definition shop :: transport where
  "shop =
     \<lparr>getDeviceList = [hub_device, printer_with 1 [iface_both]],
      findByIds = (\<lambda>vid pid. if vid = Num 1208 \<and> pid = Num 514
                               then Some (printer_with 1 [iface_both]) else None)\<rparr>"

section \<open>Properties\<close>

subsection \<open>Actions\<close>

lemma block_Nil: "block [] s = (s, [])"
  by (simp add: skip_def)

lemma block_map_obs:
  "block (map obs evs @ as) s = (fst (block as s), map (\<lambda>e. (e, s)) evs @ snd (block as s))"
  by (induction evs) (simp_all add: seq_def obs_def split: prod.splits)

lemma block_step:
  "block (a # as) s = (fst (block as (fst (a s))), snd (a s) @ snd (block as (fst (a s))))"
  by (simp add: seq_def split: prod.splits)

declare block.simps(2) [simp del]

lemmas block_simps = block_Nil block_map_obs block_step skip_def assign_def obs_def call_def

subsection \<open>The ready notification of an interface\<close>

lemma scan_foldl:
  "foldl (\<lambda>(outEp, inEp) ep.
              (if direction ep = ''out'' \<and> outEp = None then Some ep else outEp,
               if direction ep = ''in'' \<and> inEp = None then Some ep else inEp))
         (a, b) eps =
     (case a of None \<Rightarrow> find (\<lambda>ep. direction ep = ''out'') eps | Some x \<Rightarrow> Some x,
      case b of None \<Rightarrow> find (\<lambda>ep. direction ep = ''in'') eps | Some x \<Rightarrow> Some x)"
  by (induction eps arbitrary: a b) (auto split: option.splits)

lemma scan_find:
  "scan eps = (find (\<lambda>ep. direction ep = ''out'') eps, find (\<lambda>ep. direction ep = ''in'') eps)"
  by (simp add: scan_def scan_foldl)

lemma count_exhausted_state: "fst (count_exhausted cb c s) = s"
  by (simp add: count_exhausted_def block_simps split: option.splits)

lemma record_pair_state:
  "fst (record_pair cb ep_out ep_in s) =
     s\<lparr>endpoint := Some ep_out, deviceToPcEndpoint := Some ep_in, isOpen := True,
       isClosing := False\<rparr>"
  by (simp add: record_pair_def block_simps)

lemma detach_driver_raises:
  "snd (detach_driver platform iface) \<noteq> None \<longleftrightarrow>
     platform \<noteq> ''win32'' \<and> isl (isKernelDriverActive iface)"
  by (simp add: detach_driver_def split: sum.splits)

lemma iface_ready_state:
  "fst (snd (iface_ready platform cb iface counter s)) =
     (case scan (endpoints iface) of
        (Some ep_out, Some ep_in) \<Rightarrow>
          if \<not> raises platform iface \<and> endpoint s = None \<and> deviceToPcEndpoint s = None
          then s\<lparr>endpoint := Some ep_out, deviceToPcEndpoint := Some ep_in, isOpen := True,
                 isClosing := False\<rparr>
          else s
      | _ \<Rightarrow> s)"
proof -
  obtain evs r where d: "detach_driver platform iface = (evs, r)"
    by (cases "detach_driver platform iface")
  obtain a b where sc: "scan (endpoints iface) = (a, b)"
    by (cases "scan (endpoints iface)")
  have r: "r \<noteq> None \<longleftrightarrow> platform \<noteq> ''win32'' \<and> isl (isKernelDriverActive iface)"
    using detach_driver_raises [of platform iface] d by simp
  show ?thesis
  proof (cases r)
    case (Some e)
    with r have "raises platform iface" by (simp add: raises_def)
    with Some show ?thesis
      by (simp add: iface_ready_def d sc block_simps split: option.splits)
  next
    case None
    show ?thesis
    proof (cases "claim_throws iface")
      case (Some e)
      then have "raises platform iface" by (simp add: raises_def)
      with Some None show ?thesis
        by (simp add: iface_ready_def d sc block_simps split: option.splits)
    next
      case no_claim: None
      with None r have "\<not> raises platform iface" by (simp add: raises_def)
      with None no_claim show ?thesis
        by (cases a; cases b)
          (simp_all add: iface_ready_def d sc block_simps count_exhausted_state
            record_pair_state)
    qed
  qed
qed

lemma consistent_iface_ready:
  "consistent s \<Longrightarrow> consistent (fst (snd (iface_ready platform cb iface counter s)))"
  by (simp add: iface_ready_state consistent_def split: prod.splits option.splits)

lemma consistent_close: "consistent s \<Longrightarrow> consistent (fst (close_usb cb s))"
  by (auto simp: consistent_def close_usb_def close_local_def close_native_def block_simps
      split: option.splits)

lemma has_direction_find:
  "has_direction dir iface \<longleftrightarrow> find (\<lambda>ep. direction ep = dir) (endpoints iface) \<noteq> None"
  by (auto simp: has_direction_def find_None_iff)

lemma scan_offers_pair:
  "offers_pair iface \<longleftrightarrow> (\<exists>a b. scan (endpoints iface) = (Some a, Some b))"
  by (auto simp: offers_pair_def has_direction_find scan_find)

lemma scan_members:
  "scan eps = (Some a, Some b) \<Longrightarrow>
     a \<in> set eps \<and> b \<in> set eps \<and> direction a = ''out'' \<and> direction b = ''in''"
  by (auto simp: scan_find find_Some_iff)

lemma setup_natives_native: "filter is_callback (setup_natives platform iface) = []"
  "filter is_emit (setup_natives platform iface) = []"
  by (simp_all add: setup_natives_def detach_driver_def split: sum.splits)

lemma iface_ready_raises:
  assumes "raises platform iface"
  shows "iface_ready platform cb iface counter s =
           (counter, s,
            map (\<lambda>e. (e, s)) (setup_natives platform iface) @
            (if cb then [(Callback (setup_error platform iface) NoArg, s)] else []))"
proof -
  obtain evs r where d: "detach_driver platform iface = (evs, r)"
    by (cases "detach_driver platform iface")
  have r: "r \<noteq> None \<longleftrightarrow> platform \<noteq> ''win32'' \<and> isl (isKernelDriverActive iface)"
    using detach_driver_raises [of platform iface] d by simp
  show ?thesis
  proof (cases r)
    case (Some e)
    with r d have "setup_error platform iface = Some e"
      by (auto simp: setup_error_def detach_driver_def isl_def split: if_splits)
    with Some show ?thesis
      by (simp add: iface_ready_def d setup_natives_def block_simps)
  next
    case None
    with r assms obtain e where e: "claim_throws iface = Some e"
      by (auto simp: raises_def)
    with None r have "setup_error platform iface = Some e"
      by (auto simp: setup_error_def)
    with None e show ?thesis
      by (simp add: iface_ready_def d setup_natives_def block_simps)
  qed
qed

lemma iface_ready_claimed:
  assumes "\<not> raises platform iface"
  shows "iface_ready platform cb iface counter s =
           (case scan (endpoints iface) of
              (Some ep_out, Some ep_in) \<Rightarrow>
                if endpoint s = None \<and> deviceToPcEndpoint s = None
                then (counter, fst (record_pair cb ep_out ep_in s),
                      map (\<lambda>e. (e, s)) (setup_natives platform iface) @
                      snd (record_pair cb ep_out ep_in s))
                else (Suc counter, s,
                      map (\<lambda>e. (e, s)) (setup_natives platform iface) @
                      snd (count_exhausted cb (Suc counter) s))
            | _ \<Rightarrow> (Suc counter, s,
                     map (\<lambda>e. (e, s)) (setup_natives platform iface) @
                     snd (count_exhausted cb (Suc counter) s)))"
proof -
  obtain evs r where d: "detach_driver platform iface = (evs, r)"
    by (cases "detach_driver platform iface")
  obtain a b where sc: "scan (endpoints iface) = (a, b)"
    by (cases "scan (endpoints iface)")
  have "r \<noteq> None \<longleftrightarrow> platform \<noteq> ''win32'' \<and> isl (isKernelDriverActive iface)"
    using detach_driver_raises [of platform iface] d by simp
  with assms have r: "r = None" and c: "claim_throws iface = None"
    by (auto simp: raises_def)
  show ?thesis
    by (cases a; cases b)
      (simp_all add: iface_ready_def d sc r c setup_natives_def block_simps count_exhausted_state)
qed

lemma record_pair_trace:
  "snd (record_pair cb ep_out ep_in s) =
     [(Native (SetTimeout ep_out 15000),
       s\<lparr>endpoint := Some ep_out, deviceToPcEndpoint := Some ep_in\<rparr>),
      (Native (SetTimeout ep_in 700),
       s\<lparr>endpoint := Some ep_out, deviceToPcEndpoint := Some ep_in\<rparr>),
      (Emit ''connect'' (ADevice (device s)),
       s\<lparr>endpoint := Some ep_out, deviceToPcEndpoint := Some ep_in, isOpen := True,
         isClosing := False\<rparr>)] @
     (if cb then [(Callback None Self,
                   s\<lparr>endpoint := Some ep_out, deviceToPcEndpoint := Some ep_in, isOpen := True,
                     isClosing := False\<rparr>)] else [])"
  by (simp add: record_pair_def block_simps)

lemma count_exhausted_trace:
  "device s = Some d \<Longrightarrow>
     snd (count_exhausted cb counter s) =
       (if cb \<and> counter = length (interfaces d) \<and> endpoint s = None
        then [(Callback (Some EndpointPairNotFound) NoArg, s)] else [])"
  by (simp add: count_exhausted_def block_simps)

subsection \<open>The ready notifications of a run\<close>

lemma callbacks_append: "callbacks (t1 @ t2) = callbacks t1 @ callbacks t2"
  by (simp add: callbacks_def events_def)

lemma callbacks_Nil: "callbacks [] = []"
  by (simp add: callbacks_def events_def)

lemma callbacks_setup_natives:
  "callbacks (map (\<lambda>e. (e, s)) (setup_natives platform iface)) = []"
  using setup_natives_native(1) [of platform iface]
  by (simp add: callbacks_def events_def comp_def)

lemma ready_counter:
  "fst (iface_ready platform cb iface counter s) =
     (if raises platform iface \<or> (offers_pair iface \<and> no_pair s) then counter else Suc counter)"
proof (cases "raises platform iface")
  case True
  then show ?thesis by (simp add: iface_ready_raises)
next
  case False
  show ?thesis
  proof (cases "offers_pair iface")
    case True
    then obtain a b where "scan (endpoints iface) = (Some a, Some b)"
      by (auto simp: scan_offers_pair)
    with False True show ?thesis
      by (simp add: iface_ready_claimed no_pair_def)
  next
    case no: False
    then have "\<And>a b. scan (endpoints iface) \<noteq> (Some a, Some b)"
      by (auto simp: scan_offers_pair)
    with False no show ?thesis
      by (auto simp: iface_ready_claimed split: prod.splits option.splits)
  qed
qed

lemma ready_callbacks:
  assumes "device s = Some d"
  shows "callbacks (snd (snd (iface_ready platform True iface counter s))) =
     (if raises platform iface then [Callback (setup_error platform iface) NoArg]
      else if offers_pair iface \<and> no_pair s then [Callback None Self]
      else if Suc counter = length (interfaces d) \<and> endpoint s = None
        then [Callback (Some EndpointPairNotFound) NoArg]
      else [])"
proof (cases "raises platform iface")
  case True
  then show ?thesis
    by (simp add: iface_ready_raises callbacks_append callbacks_setup_natives)
      (simp add: callbacks_def events_def)
next
  case False
  have ce: "callbacks (snd (count_exhausted True c s)) =
      (if c = length (interfaces d) \<and> endpoint s = None
        then [Callback (Some EndpointPairNotFound) NoArg] else [])" for c
    by (simp add: count_exhausted_trace [OF assms] callbacks_def events_def)
  show ?thesis
  proof (cases "offers_pair iface")
    case True
    then obtain a b where sc: "scan (endpoints iface) = (Some a, Some b)"
      by (auto simp: scan_offers_pair)
    have "callbacks (snd (record_pair True a b s)) = [Callback None Self]"
      by (simp add: record_pair_trace callbacks_def events_def)
    with False True sc ce show ?thesis
      by (simp add: iface_ready_claimed no_pair_def callbacks_append callbacks_setup_natives)
  next
    case no: False
    then have "\<And>a b. scan (endpoints iface) \<noteq> (Some a, Some b)"
      by (auto simp: scan_offers_pair)
    with False no ce show ?thesis
      by (auto simp: iface_ready_claimed callbacks_append callbacks_setup_natives
          split: prod.splits option.splits)
  qed
qed

lemma ready_state_same:
  "raises platform iface \<or> \<not> offers_pair iface \<or> \<not> no_pair s \<Longrightarrow>
     fst (snd (iface_ready platform cb iface counter s)) = s"
  by (auto simp: iface_ready_state scan_offers_pair no_pair_def split: prod.splits option.splits)

lemma ready_state_pair:
  assumes "\<not> raises platform iface" "offers_pair iface" "no_pair s"
  shows "pair_of iface (fst (snd (iface_ready platform cb iface counter s)))
     \<and> device (fst (snd (iface_ready platform cb iface counter s))) = device s
     \<and> endpoint (fst (snd (iface_ready platform cb iface counter s))) \<noteq> None
     \<and> isOpen (fst (snd (iface_ready platform cb iface counter s)))"
proof -
  from assms(2) obtain a b where sc: "scan (endpoints iface) = (Some a, Some b)"
    by (auto simp: scan_offers_pair)
  from scan_members [OF sc] assms sc show ?thesis
    by (auto simp: iface_ready_state pair_of_def no_pair_def)
qed

lemma deliver_Cons:
  "deliver platform cb (i # ifaces) counter s =
     (fst (deliver platform cb ifaces (fst (iface_ready platform cb i counter s))
             (fst (snd (iface_ready platform cb i counter s)))),
      fst (snd (deliver platform cb ifaces (fst (iface_ready platform cb i counter s))
             (fst (snd (iface_ready platform cb i counter s))))),
      snd (snd (iface_ready platform cb i counter s)) @
      snd (snd (deliver platform cb ifaces (fst (iface_ready platform cb i counter s))
             (fst (snd (iface_ready platform cb i counter s))))))"
  by (simp split: prod.splits)

lemma deliver_found_state:
  "\<not> no_pair s \<Longrightarrow> fst (snd (deliver platform cb ifaces counter s)) = s"
  by (induction ifaces arbitrary: counter)
    (simp_all add: deliver_Cons ready_state_same del: deliver.simps(2))


lemma deliver_pair:
  "no_pair s \<Longrightarrow>
     fst (snd (deliver platform cb ifaces counter s)) = s
     \<or> (\<exists>i \<in> set ifaces. pair_of i (fst (snd (deliver platform cb ifaces counter s))))"
proof (induction ifaces arbitrary: counter)
  case Nil
  then show ?case by simp
next
  case (Cons i ifaces)
  show ?case
  proof (cases "\<not> raises platform i \<and> offers_pair i")
    case True
    let ?s1 = "fst (snd (iface_ready platform cb i counter s))"
    from True Cons.prems have p: "pair_of i ?s1" and e: "endpoint ?s1 \<noteq> None"
      using ready_state_pair [of platform i s cb counter] by simp_all
    from e have "\<not> no_pair ?s1" by (simp add: no_pair_def)
    with p show ?thesis
      by (simp add: deliver_Cons deliver_found_state del: deliver.simps(2))
  next
    case False
    then have "fst (snd (iface_ready platform cb i counter s)) = s"
      by (auto simp: ready_state_same)
    with Cons.IH [OF Cons.prems] show ?thesis
      by (auto simp: deliver_Cons simp del: deliver.simps(2))
  qed
qed


subsection \<open>Reachable sessions\<close>

lemma close_usb_closes:
  "\<not> isClosing s \<Longrightarrow>
     \<not> isOpen (fst (close_usb cb s)) \<and> \<not> isClosing (fst (close_usb cb s))
     \<and> endpoint (fst (close_usb cb s)) = None
     \<and> deviceToPcEndpoint (fst (close_usb cb s)) = None"
  by (simp add: close_usb_def close_local_def close_native_def block_simps
      split: option.splits)

lemma open_usb_session: "fst (fst (open_usb cb s)) = s"
  by (simp add: open_usb_def block_simps split: option.splits prod.splits)

lemma reachable_consistent: "reachable s \<Longrightarrow> consistent s"
proof (induction rule: reachable.induct)
  case (new tr vid pid)
  show ?case by (simp add: consistent_def USB_new_def)
next
  case (opened s cb)
  then show ?case by (simp add: open_usb_session)
next
  case (ready s platform cb iface counter)
  then show ?case by (simp add: consistent_iface_ready)
next
  case (written s data cb)
  then show ?case
    by (auto simp: consistent_def write_usb_def block_simps split: option.splits)
next
  case (write_completed s err cb)
  then show ?case
    by (auto simp: consistent_def write_complete_def block_simps split: option.splits)
next
  case (read s cb)
  then show ?case
    by (auto simp: consistent_def read_usb_def block_simps split: option.splits)
next
  case (read_completed s err buf cb)
  then show ?case
    by (auto simp: consistent_def read_complete_def block_simps split: option.splits)
next
  case (reset s cb)
  then show ?case
    by (auto simp: consistent_def reset_usb_def block_simps split: option.splits)
next
  case (reset_completed s err cb)
  then show ?case
    by (auto simp: consistent_def reset_complete_def block_simps split: option.splits)
next
  case (closed s cb)
  then show ?case by (simp add: consistent_close)
next
  case (detached s dev)
  then show ?case
    by (auto simp: consistent_def onDetach_def block_simps)
next
  case (attached s tr dev)
  then show ?case
    by (auto simp: consistent_def onAttach_def block_simps)
next
  case (destroyed s)
  then have "\<not> isClosing (s\<lparr>onDetach_set := False, onAttach_set := False\<rparr>)"
    by (simp add: consistent_def)
  from close_usb_closes [OF this, of False] show ?case
    by (simp add: consistent_def destroy_def block_simps)
qed

subsection \<open>Whole runs of \<open>open\<close>\<close>

lemma deliver_exhausted:
  "device s = Some d \<Longrightarrow> endpoint s = None \<Longrightarrow>
   \<forall>i \<in> set ifaces. \<not> raises platform i \<and> \<not> offers_pair i \<Longrightarrow>
   counter + length ifaces \<le> length (interfaces d) \<Longrightarrow>
     fst (snd (deliver platform True ifaces counter s)) = s
     \<and> callbacks (snd (snd (deliver platform True ifaces counter s))) =
         (if ifaces \<noteq> [] \<and> counter + length ifaces = length (interfaces d)
          then [Callback (Some EndpointPairNotFound) NoArg] else [])"
proof (induction ifaces arbitrary: counter)
  case Nil
  then show ?case by (simp add: callbacks_Nil)
next
  case (Cons i ifaces)
  let ?s1 = "fst (snd (iface_ready platform True i counter s))"
  let ?c1 = "fst (iface_ready platform True i counter s)"
  from Cons.prems have i: "\<not> raises platform i" "\<not> offers_pair i" by simp_all
  then have st: "?s1 = s" and c: "?c1 = Suc counter"
    by (simp_all add: ready_state_same ready_counter)
  from Cons.prems have le: "Suc counter + length ifaces \<le> length (interfaces d)" by simp
  have lt: "Suc counter \<noteq> length (interfaces d)" if "ifaces \<noteq> []"
  proof
    assume eq: "Suc counter = length (interfaces d)"
    from that have "0 < length ifaces" by simp
    with le eq show False by linarith
  qed
  from Cons.prems have rest: "\<forall>i \<in> set ifaces. \<not> raises platform i \<and> \<not> offers_pair i"
    by simp
  from Cons.IH [OF Cons.prems(1,2) rest le] i Cons.prems(1,2) lt show ?case
    by (cases "ifaces = []")
      (auto simp: deliver_Cons st c callbacks_append ready_callbacks callbacks_Nil
        simp del: deliver.simps(2))
qed

lemma count_exhausted_snapshots: "\<forall>x \<in> set (snd (count_exhausted cb c s)). snd x = s"
  by (simp add: count_exhausted_def block_simps split: option.splits)

lemma ready_snapshots:
  "\<forall>x \<in> set (snd (snd (iface_ready platform cb iface counter s))).
     snd x = s \<or> (no_pair s \<and> pair_of iface (snd x))"
proof (cases "raises platform iface")
  case True
  then show ?thesis by (auto simp: iface_ready_raises)
next
  case False
  obtain a b where sc: "scan (endpoints iface) = (a, b)"
    by (cases "scan (endpoints iface)")
  show ?thesis
  proof (cases "\<exists>x y. a = Some x \<and> b = Some y \<and> no_pair s")
    case True
    then obtain x y where ab: "a = Some x" "b = Some y" and np: "no_pair s" by auto
    from scan_members [of "endpoints iface" x y] sc ab
    have m: "x \<in> set (endpoints iface)" "y \<in> set (endpoints iface)"
      "direction x = ''out''" "direction y = ''in''"
      by simp_all
    from np have n: "endpoint s = None" "deviceToPcEndpoint s = None"
      by (simp_all add: no_pair_def)
    from False sc ab n np m show ?thesis
      by (auto simp: iface_ready_claimed record_pair_trace record_pair_state pair_of_def)
  next
    case no: False
    with False sc count_exhausted_snapshots [of cb "Suc counter" s] show ?thesis
      by (cases a; cases b) (auto simp: iface_ready_claimed no_pair_def)
  qed
qed

lemma deliver_found_snapshots:
  "\<not> no_pair s \<Longrightarrow> \<forall>x \<in> set (snd (snd (deliver platform cb ifaces counter s))). snd x = s"
proof (induction ifaces arbitrary: counter)
  case Nil
  then show ?case by simp
next
  case (Cons i ifaces)
  from Cons.prems have st: "fst (snd (iface_ready platform cb i counter s)) = s"
    by (simp add: ready_state_same)
  from Cons.IH [OF Cons.prems] ready_snapshots [of platform cb i counter s] Cons.prems
  show ?case
    by (auto simp: deliver_Cons st simp del: deliver.simps(2))
qed

lemma deliver_snapshots:
  "no_pair s \<Longrightarrow>
     \<forall>x \<in> set (snd (snd (deliver platform cb ifaces counter s))).
       snd x = s \<or> (\<exists>i \<in> set ifaces. pair_of i (snd x))"
proof (induction ifaces arbitrary: counter)
  case Nil
  then show ?case by simp
next
  case (Cons i ifaces)
  let ?s1 = "fst (snd (iface_ready platform cb i counter s))"
  note first = ready_snapshots [of platform cb i counter s]
  show ?case
  proof (cases "\<not> raises platform i \<and> offers_pair i")
    case True
    with Cons.prems have p: "pair_of i ?s1" and e: "endpoint ?s1 \<noteq> None"
      using ready_state_pair [of platform i s cb counter] by simp_all
    from e have "\<not> no_pair ?s1" by (simp add: no_pair_def)
    from deliver_found_snapshots
      [OF this, of platform cb ifaces "fst (iface_ready platform cb i counter s)"] p first
    show ?thesis
      by (auto simp: deliver_Cons simp del: deliver.simps(2))
  next
    case False
    then have st: "?s1 = s"
      by (auto simp: ready_state_same)
    from Cons.IH [OF Cons.prems] first show ?thesis
      by (auto simp: deliver_Cons st simp del: deliver.simps(2))
  qed
qed

lemma submit_all:
  "\<forall>i \<in> set ifaces. setAltSetting_throws i = None \<Longrightarrow>
     submit ifaces = (map (\<lambda>i. Native (SetAltSetting i (altSetting i))) ifaces, ifaces, None)"
  by (induction ifaces) simp_all

lemma submit_pending: "set (fst (snd (submit ifaces))) \<subseteq> set ifaces"
  by (induction ifaces) (auto split: option.splits prod.splits)

lemma open_usb_snapshots: "\<forall>x \<in> set (snd (fst (open_usb cb s))). snd x = s"
  by (auto simp: open_usb_def block_simps split: option.splits prod.splits)

lemma open_usb_pending:
  "i \<in> set (snd (open_usb cb s)) \<Longrightarrow> device s = Some d \<Longrightarrow> i \<in> set (interfaces d)"
  using submit_pending [of "interfaces d"]
  by (auto simp: open_usb_def split: option.splits prod.splits if_splits)

lemma open_run_deliver:
  "open_run platform cb order s =
     (fst (snd (deliver platform cb (filter (\<lambda>i. i \<in> set (snd (open_usb cb s))) order) 0 s)),
      snd (fst (open_usb cb s)) @
      snd (snd (deliver platform cb (filter (\<lambda>i. i \<in> set (snd (open_usb cb s))) order) 0 s)))"
  using open_usb_session [of cb s]
  by (cases "open_usb cb s") (auto simp: open_run_def split: prod.splits)

lemma open_usb_accepted:
  "\<not> isResetting s \<Longrightarrow> device s = Some d \<Longrightarrow> \<not> isOpen s \<Longrightarrow> open_throws d = None \<Longrightarrow>
   \<forall>i \<in> set (interfaces d). setAltSetting_throws i = None \<Longrightarrow>
     open_usb cb s =
       ((s, (Native (DevOpen d), s) #
            map (\<lambda>e. (e, s)) (map (\<lambda>i. Native (SetAltSetting i (altSetting i))) (interfaces d))),
        interfaces d)"
  by (simp add: open_usb_def submit_all block_simps)

lemma open_run_accepted:
  assumes "\<not> isResetting s" "device s = Some d" "\<not> isOpen s" "open_throws d = None"
    "\<forall>i \<in> set (interfaces d). setAltSetting_throws i = None"
    "set order \<subseteq> set (interfaces d)"
  shows "fst (open_run platform cb order s) = fst (snd (deliver platform cb order 0 s))"
    and "callbacks (snd (open_run platform cb order s)) =
           callbacks (snd (snd (deliver platform cb order 0 s)))"
proof -
  from assms(6) have f: "filter (\<lambda>i. i \<in> set (interfaces d)) order = order"
    by (auto simp: filter_id_conv)
  show "fst (open_run platform cb order s) = fst (snd (deliver platform cb order 0 s))"
    by (simp add: open_run_deliver open_usb_accepted [OF assms(1-5)] f)
  show "callbacks (snd (open_run platform cb order s)) =
           callbacks (snd (snd (deliver platform cb order 0 s)))"
    by (simp add: open_run_deliver open_usb_accepted [OF assms(1-5)] f callbacks_append)
      (simp add: callbacks_def events_def comp_def)
qed

subsection \<open>The sample sessions\<close>

lemma scan_both: "scan [ep0, ep1] = (Some ep0, Some ep1)"
  by (simp add: scan_def ep0_def ep1_def)

lemma open_session_eq:
  "open_session =
     \<lparr>device = Some (printer_with 1 [iface_both]), endpoint = Some ep0,
      deviceToPcEndpoint = Some ep1, isOpen = True, isClosing = False, isResetting = False,
      readInFlight = False, onDetach_set = True, onAttach_set = True\<rparr>"
  by (simp add: open_session_def open_run_def open_usb_def session_on_def USB_new_def
      printer_with_def iface_both_def iface_with_def iface_ready_def detach_driver_def
      scan_both record_pair_def block_simps)

lemma unbound_session_eq:
  "unbound_session =
     \<lparr>device = None, endpoint = None, deviceToPcEndpoint = None, isOpen = False,
      isClosing = False, isResetting = False, readInFlight = False, onDetach_set = True,
      onAttach_set = True\<rparr>"
  by (simp add: unbound_session_def USB_new_def host_def first_printer_def findPrinter_def)

subsection \<open>The Locator\<close>

lemma is_printer_iff:
  "is_printer dev \<longleftrightarrow>
     (\<exists>ifaces. configDescriptor dev = Inr ifaces \<and>
        (\<exists>iface \<in> set ifaces. \<exists>conf \<in> set iface. bInterfaceClass conf = 7))"
  by (auto simp: is_printer_def filter_empty_conv split: sum.splits)

text \<open>
  Claim C9. For every device list of the transport, \<open>findPrinter\<close> returns exactly the
  devices with at least one interface (in any alternate setting) of class 7, in the order
  of the transport's list; a device whose configuration descriptor cannot be read is left
  out, and nothing is reported for it.
\<close>

theorem findPrinter_printer_class:
  "findPrinter tr =
     filter (\<lambda>dev. \<exists>ifaces. configDescriptor dev = Inr ifaces \<and>
               (\<exists>iface \<in> set ifaces. \<exists>conf \<in> set iface. bInterfaceClass conf = 7))
            (getDeviceList tr)
   \<and> subseq (findPrinter tr) (getDeviceList tr)
   \<and> (\<forall>dev \<in> set (getDeviceList tr). isl (configDescriptor dev) \<longrightarrow> dev \<notin> set (findPrinter tr))"
  by (auto simp: findPrinter_def is_printer_iff[abs_def] isl_def)

theorem findPrinter_printer_class_witness:
  "findPrinter (host [hub_device, printer_with 2 [], unreadable_device, printer_with 1 []])
     = [printer_with 2 [], printer_with 1 []]
   \<and> isl (configDescriptor unreadable_device)
   \<and> unreadable_device \<notin>
       set (findPrinter (host [hub_device, printer_with 2 [], unreadable_device, printer_with 1 []]))"
  using findPrinter_printer_class
    [of "host [hub_device, printer_with 2 [], unreadable_device, printer_with 1 []]"]
  by (simp add: host_def hub_device_def printer_with_def unreadable_device_def)

subsection \<open>Hot-plug filtering\<close>

text \<open>
  Claim C8. A detach notification for a device that is not the bound one leaves every
  field of the session as it is and raises nothing. For the bound device the session is
  closed (open flag false), both endpoints and the device reference are cleared, and
  \<open>detach\<close> then \<open>disconnect\<close> are raised, once each, in that order.
\<close>


theorem onDetach_filters_by_identity:
  "(device s \<noteq> Some dev \<longrightarrow> onDetach dev s = (s, []))
   \<and> (device s = Some dev \<longrightarrow>
        fst (onDetach dev s) =
          s\<lparr>isOpen := False, endpoint := None, deviceToPcEndpoint := None, device := None\<rparr>
        \<and> events (snd (onDetach dev s)) =
            [Emit ''detach'' (ADevice (Some dev)), Emit ''disconnect'' (ADevice (Some dev))])"
  by (simp add: onDetach_def block_simps events_def)

theorem onDetach_filters_by_identity_witness:
  "device open_session = Some (printer_with 1 [iface_both])
   \<and> fst (onDetach (printer_with 1 [iface_both]) open_session) =
       open_session\<lparr>isOpen := False, endpoint := None, deviceToPcEndpoint := None, device := None\<rparr>
   \<and> events (snd (onDetach (printer_with 1 [iface_both]) open_session)) =
       [Emit ''detach'' (ADevice (Some (printer_with 1 [iface_both]))),
        Emit ''disconnect'' (ADevice (Some (printer_with 1 [iface_both])))]
   \<and> device open_session \<noteq> Some hub_device
   \<and> onDetach hub_device open_session = (open_session, [])"
  using onDetach_filters_by_identity [of open_session "printer_with 1 [iface_both]"]
    onDetach_filters_by_identity [of open_session hub_device]
  by (simp add: open_session_eq printer_with_def hub_device_def)

subsection \<open>\<open>write\<close> and \<open>read\<close>\<close>

lemma scan_stuck: "scan [ep_stuck, ep1] = (Some ep_stuck, Some ep1)"
  by (simp add: scan_def ep_stuck_def ep1_def)

lemma stuck_session_eq:
  "stuck_session =
     \<lparr>device = Some (printer_with 4 [iface_stuck]), endpoint = Some ep_stuck,
      deviceToPcEndpoint = Some ep1, isOpen = True, isClosing = False, isResetting = False,
      readInFlight = False, onDetach_set = True, onAttach_set = True\<rparr>"
  by (simp add: stuck_session_def open_run_def open_usb_def session_on_def USB_new_def
      printer_with_def iface_stuck_def iface_with_def iface_ready_def detach_driver_def
      scan_stuck record_pair_def block_simps)

text \<open>
  Claim C7, as stated, fails: when \<open>transfer\<close> throws while the OUT transfer is
  submitted, the transfer has failed and the callback gets the error, but no \<open>error\<close>
  notification is raised; \<open>data\<close> is the only notification.
\<close>

theorem write_submit_throw_counterexample:
  "\<not> isResetting stuck_session \<and> \<not> isClosing stuck_session
   \<and> endpoint stuck_session = Some ep_stuck
   \<and> transfer_throws ep_stuck = Some (TransportError 9)
   \<and> events (snd (write_usb [27, 64] True stuck_session)) =
       [Emit ''data'' (AData [27, 64]), Native (TransferOut ep_stuck [27, 64]),
        Callback (Some (TransportError 9)) NoArg]
   \<and> emits (snd (write_usb [27, 64] True stuck_session)) = [Emit ''data'' (AData [27, 64])]"
  by (simp add: stuck_session_eq write_usb_def block_simps events_def emits_def ep_stuck_def)

text \<open>
  Claim C7, amended. \<open>write\<close> fails with \<open>Busy\<close> while resetting or closing, then with
  \<open>NotReady\<close> when no OUT endpoint is bound. Otherwise it raises \<open>data\<close> with the
  payload and only then submits the transfer, once. When the transport reports an error to
  the completion of the transfer, \<open>error\<close> is raised and the callback gets that error;
  when \<open>transfer\<close> throws while the transfer is submitted, the callback gets that error
  and no \<open>error\<close> notification is raised. Neither path submits again.
\<close>

theorem write_guards_and_notifications:
  "(isResetting s \<or> isClosing s \<longrightarrow> write_usb data True s = (s, [(Callback (Some Busy) NoArg, s)]))
   \<and> (\<not> isResetting s \<and> \<not> isClosing s \<and> endpoint s = None \<longrightarrow>
        write_usb data True s = (s, [(Callback (Some NotReady) NoArg, s)]))
   \<and> (\<not> isResetting s \<and> \<not> isClosing s \<and> endpoint s = Some ep \<longrightarrow>
        fst (write_usb data cb s) = s
        \<and> take 2 (events (snd (write_usb data cb s))) =
            [Emit ''data'' (AData data), Native (TransferOut ep data)]
        \<and> natives (snd (write_usb data cb s)) = [Native (TransferOut ep data)]
        \<and> (transfer_throws ep = None \<longrightarrow>
             write_usb data True s =
               (s, [(Emit ''data'' (AData data), s), (Native (TransferOut ep data), s)]))
        \<and> (\<forall>e. transfer_throws ep = Some e \<longrightarrow>
             write_usb data True s =
               (s, [(Emit ''data'' (AData data), s), (Native (TransferOut ep data), s),
                    (Callback (Some e) NoArg, s)])))
   \<and> write_complete (Some e) True s = (s, [(Emit ''error'' (AError e), s), (Callback (Some e) NoArg, s)])
   \<and> write_complete None True s = (s, [(Callback None NoArg, s)])
   \<and> natives (snd (write_complete err cb s)) = []"
  by (simp add: write_usb_def write_complete_def block_simps events_def natives_def
      split: option.splits)

theorem write_guards_and_notifications_witness:
  "isResetting (open_session\<lparr>isResetting := True\<rparr>)
   \<and> write_usb [27, 64] True (open_session\<lparr>isResetting := True\<rparr>) =
       (open_session\<lparr>isResetting := True\<rparr>,
        [(Callback (Some Busy) NoArg, open_session\<lparr>isResetting := True\<rparr>)])
   \<and> \<not> isResetting unbound_session \<and> \<not> isClosing unbound_session
   \<and> endpoint unbound_session = None
   \<and> write_usb [27, 64] True unbound_session =
       (unbound_session, [(Callback (Some NotReady) NoArg, unbound_session)])
   \<and> \<not> isResetting open_session \<and> \<not> isClosing open_session
   \<and> endpoint open_session = Some ep0 \<and> transfer_throws ep0 = None
   \<and> events (snd (write_usb [27, 64] True open_session)) =
       [Emit ''data'' (AData [27, 64]), Native (TransferOut ep0 [27, 64])]
   \<and> \<not> isResetting stuck_session \<and> \<not> isClosing stuck_session
   \<and> endpoint stuck_session = Some ep_stuck
   \<and> transfer_throws ep_stuck = Some (TransportError 9)
   \<and> write_usb [27, 64] True stuck_session =
       (stuck_session,
        [(Emit ''data'' (AData [27, 64]), stuck_session),
         (Native (TransferOut ep_stuck [27, 64]), stuck_session),
         (Callback (Some (TransportError 9)) NoArg, stuck_session)])"
proof -
  have o: "\<not> isResetting open_session \<and> \<not> isClosing open_session
      \<and> endpoint open_session = Some ep0" and t0: "transfer_throws ep0 = None"
    by (simp_all add: open_session_eq ep0_def)
  have k: "\<not> isResetting stuck_session \<and> \<not> isClosing stuck_session
      \<and> endpoint stuck_session = Some ep_stuck"
    and tk: "transfer_throws ep_stuck = Some (TransportError 9)"
    by (simp_all add: stuck_session_eq ep_stuck_def)
  from write_guards_and_notifications [where s = open_session and data = "[27, 64]" and ep = ep0
      and cb = True] o t0
  have a: "write_usb [27, 64] True open_session =
      (open_session, [(Emit ''data'' (AData [27, 64]), open_session),
                      (Native (TransferOut ep0 [27, 64]), open_session)])"
    by blast
  from write_guards_and_notifications [where s = stuck_session and data = "[27, 64]"
      and ep = ep_stuck and cb = True] k tk
  have b: "write_usb [27, 64] True stuck_session =
       (stuck_session,
        [(Emit ''data'' (AData [27, 64]), stuck_session),
         (Native (TransferOut ep_stuck [27, 64]), stuck_session),
         (Callback (Some (TransportError 9)) NoArg, stuck_session)])"
    by blast
  have u: "\<not> isResetting unbound_session \<and> \<not> isClosing unbound_session
      \<and> endpoint unbound_session = None"
    by (simp add: unbound_session_eq)
  with write_guards_and_notifications [where s = unbound_session and data = "[27, 64]"]
  have c: "write_usb [27, 64] True unbound_session =
       (unbound_session, [(Callback (Some NotReady) NoArg, unbound_session)])"
    by blast
  from write_guards_and_notifications [where s = "open_session\<lparr>isResetting := True\<rparr>"
      and data = "[27, 64]"]
  have d: "write_usb [27, 64] True (open_session\<lparr>isResetting := True\<rparr>) =
       (open_session\<lparr>isResetting := True\<rparr>,
        [(Callback (Some Busy) NoArg, open_session\<lparr>isResetting := True\<rparr>)])"
    by simp
  from a b c d o t0 k tk u show ?thesis
    by (simp add: events_def)
qed

text \<open>
  Claim C5. \<open>read\<close> fails with \<open>Busy\<close> while resetting or closing; without an IN
  endpoint it hands an empty buffer and no error to the callback; with a read outstanding
  it fails with \<open>ReadInProgress\<close>; otherwise it submits a transfer of 8 bytes. When the
  transfer ends, with data or with an error, and when submitting it throws, the callback
  sees the in-flight flag already cleared, so the next \<open>read\<close> submits a transfer again.
\<close>


theorem read_guards_and_flag:
  "(isResetting s \<or> isClosing s \<longrightarrow> read_usb True s = (s, [(Callback (Some Busy) NoArg, s)]))
   \<and> (\<not> isResetting s \<and> \<not> isClosing s \<and> deviceToPcEndpoint s = None \<longrightarrow>
        read_usb True s = (s, [(Callback None (Buf []), s)]))
   \<and> (\<not> isResetting s \<and> \<not> isClosing s \<and> deviceToPcEndpoint s = Some ep \<and> readInFlight s \<longrightarrow>
        read_usb True s = (s, [(Callback (Some ReadInProgress) NoArg, s)]))
   \<and> (\<not> isResetting s \<and> \<not> isClosing s \<and> deviceToPcEndpoint s = Some ep \<and> \<not> readInFlight s \<longrightarrow>
        (transfer_throws ep = None \<longrightarrow>
           read_usb True s =
             (s\<lparr>readInFlight := True\<rparr>, [(Native (TransferIn ep 8), s\<lparr>readInFlight := True\<rparr>)]))
        \<and> (\<forall>e. transfer_throws ep = Some e \<longrightarrow>
             read_usb True s =
               (s\<lparr>readInFlight := False\<rparr>,
                [(Native (TransferIn ep 8), s\<lparr>readInFlight := True\<rparr>),
                 (Callback (Some e) (Buf []), s\<lparr>readInFlight := False\<rparr>)])))
   \<and> read_complete None (Some b) True s =
        (s\<lparr>readInFlight := False\<rparr>, [(Callback None (Buf b), s\<lparr>readInFlight := False\<rparr>)])
   \<and> read_complete (Some e) data True s =
        (s\<lparr>readInFlight := False\<rparr>, [(Callback (Some e) (Buf []), s\<lparr>readInFlight := False\<rparr>)])
   \<and> (\<not> isResetting s \<and> \<not> isClosing s \<and> deviceToPcEndpoint s = Some ep \<longrightarrow>
        natives (snd (read_usb cb (fst (read_complete err data cb' s)))) = [Native (TransferIn ep 8)])"
  by (simp add: read_usb_def read_complete_def block_simps events_def natives_def
      split: option.splits)

theorem read_guards_and_flag_witness:
  "isClosing (open_session\<lparr>isClosing := True\<rparr>)
   \<and> read_usb True (open_session\<lparr>isClosing := True\<rparr>) =
       (open_session\<lparr>isClosing := True\<rparr>,
        [(Callback (Some Busy) NoArg, open_session\<lparr>isClosing := True\<rparr>)])
   \<and> \<not> isResetting unbound_session \<and> \<not> isClosing unbound_session
   \<and> deviceToPcEndpoint unbound_session = None
   \<and> read_usb True unbound_session = (unbound_session, [(Callback None (Buf []), unbound_session)])
   \<and> \<not> isResetting open_session \<and> \<not> isClosing open_session
   \<and> deviceToPcEndpoint open_session = Some ep1 \<and> \<not> readInFlight open_session
   \<and> transfer_throws ep1 = None
   \<and> read_usb True open_session =
       (open_session\<lparr>readInFlight := True\<rparr>,
        [(Native (TransferIn ep1 8), open_session\<lparr>readInFlight := True\<rparr>)])
   \<and> readInFlight (open_session\<lparr>readInFlight := True\<rparr>)
   \<and> read_usb True (open_session\<lparr>readInFlight := True\<rparr>) =
       (open_session\<lparr>readInFlight := True\<rparr>,
        [(Callback (Some ReadInProgress) NoArg, open_session\<lparr>readInFlight := True\<rparr>)])
   \<and> natives (snd (read_usb True
         (fst (read_complete (Some (TransportError 2)) None True
            (open_session\<lparr>readInFlight := True\<rparr>))))) = [Native (TransferIn ep1 8)]"
  using read_guards_and_flag [where s = "open_session\<lparr>isClosing := True\<rparr>"]
    read_guards_and_flag [where s = unbound_session]
    read_guards_and_flag [where s = open_session and ep = ep1]
    read_guards_and_flag [where s = "open_session\<lparr>readInFlight := True\<rparr>" and ep = ep1
      and cb = True and err = "Some (TransportError 2)" and data = None and cb' = True]
  by (simp add: open_session_eq unbound_session_eq ep1_def read_usb_def read_complete_def
      block_simps natives_def events_def)

subsection \<open>Runs of \<open>open\<close> stay among the reachable sessions\<close>

lemma reachable_deliver:
  "reachable s \<Longrightarrow> reachable (fst (snd (deliver platform cb ifaces counter s)))"
proof (induction ifaces arbitrary: counter s)
  case Nil
  then show ?case by simp
next
  case (Cons i ifaces)
  obtain c1 s1 t1 where r: "iface_ready platform cb i counter s = (c1, s1, t1)"
    by (cases "iface_ready platform cb i counter s") auto
  from Cons.prems have "reachable (fst (snd (iface_ready platform cb i counter s)))"
    by (rule reachable.ready)
  then have "reachable s1" by (simp add: r)
  from Cons.IH [OF this, of c1] show ?case
    by (auto simp: r split: prod.splits)
qed

lemma reachable_open_run: "reachable s \<Longrightarrow> reachable (fst (open_run platform cb order s))"
proof -
  assume r: "reachable s"
  obtain t1 pending where o: "open_usb cb s = ((s, t1), pending)"
    using open_usb_session [of cb s] by (cases "open_usb cb s") auto
  from reachable_deliver [OF r, of platform cb "filter (\<lambda>i. i \<in> set pending) order" 0]
  show ?thesis
    by (auto simp: open_run_def o split: prod.splits)
qed

lemma reachable_open_session: "reachable open_session"
  unfolding open_session_def session_on_def
  by (rule reachable_open_run) (rule reachable.new)

subsection \<open>\<open>close\<close>\<close>

lemma close_usb_open:
  "\<not> isClosing s \<Longrightarrow> device s = Some d \<Longrightarrow> isOpen s \<Longrightarrow>
     close_usb cb s =
       (s\<lparr>isClosing := False, isOpen := False, readInFlight := False, endpoint := None,
          deviceToPcEndpoint := None\<rparr>,
        (Native (DevClose d), s\<lparr>isClosing := True\<rparr>) #
        (if cb then [(Callback None NoArg,
                      s\<lparr>isClosing := False, isOpen := False, readInFlight := False,
                        endpoint := None, deviceToPcEndpoint := None\<rparr>)] else []) @
        [(Emit ''close'' (ADevice (Some d)),
          s\<lparr>isClosing := False, isOpen := False, readInFlight := False, endpoint := None,
            deviceToPcEndpoint := None\<rparr>)])"
  by (simp add: close_usb_def close_native_def block_simps)

lemma close_usb_not_open:
  "\<not> isClosing s \<Longrightarrow> device s = None \<or> \<not> isOpen s \<Longrightarrow>
     close_usb cb s =
       (s\<lparr>isClosing := False, isOpen := False, endpoint := None, deviceToPcEndpoint := None\<rparr>,
        if cb then [(Callback None NoArg,
                     s\<lparr>isClosing := False, isOpen := False, endpoint := None,
                       deviceToPcEndpoint := None\<rparr>)] else [])"
  by (auto simp: close_usb_def close_local_def block_simps split: option.splits)

text \<open>
  Claim C4, as stated, fails: a \<open>close\<close> on a session without a device passes the
  already-closing guard and raises no \<open>close\<close> notification; the callback is all that
  happens.
\<close>

theorem close_without_open_counterexample:
  "\<not> isClosing unbound_session
   \<and> events (snd (close_usb True unbound_session)) = [Callback None NoArg]
   \<and> emits (snd (close_usb True unbound_session)) = []"
  by (simp add: unbound_session_eq close_usb_def close_local_def block_simps events_def
      emits_def)

text \<open>
  Claim C4, amended. Every \<open>close\<close> that passes the already-closing guard clears both
  endpoints, the open flag and the closing flag itself, keeps the device, and calls the
  callback with no error once they are cleared. With a device bound and the session open it
  also calls the native close, clears the in-flight flag and, after the callback, raises
  \<open>close\<close>; without a device, or with the session not open, it makes no native call and
  raises nothing.
\<close>

theorem close_clears_and_notifies:
  "\<not> isClosing s \<Longrightarrow>
     endpoint (fst (close_usb True s)) = None
     \<and> deviceToPcEndpoint (fst (close_usb True s)) = None
     \<and> \<not> isOpen (fst (close_usb True s))
     \<and> \<not> isClosing (fst (close_usb True s))
     \<and> device (fst (close_usb True s)) = device s
     \<and> (\<forall>d. device s = Some d \<and> isOpen s \<longrightarrow>
          \<not> readInFlight (fst (close_usb True s))
          \<and> snd (close_usb True s) =
              [(Native (DevClose d), s\<lparr>isClosing := True\<rparr>),
               (Callback None NoArg, fst (close_usb True s)),
               (Emit ''close'' (ADevice (Some d)), fst (close_usb True s))])
     \<and> (device s = None \<or> \<not> isOpen s \<longrightarrow>
          snd (close_usb True s) = [(Callback None NoArg, fst (close_usb True s))])"
proof (cases "device s = None \<or> \<not> isOpen s")
  case True
  assume "\<not> isClosing s"
  from close_usb_not_open [OF this True, of True] True show ?thesis
    by auto
next
  case False
  assume c: "\<not> isClosing s"
  from False obtain d where d: "device s = Some d" and o: "isOpen s"
    by auto
  from close_usb_open [OF c d o, of True] d o show ?thesis
    by simp
qed

theorem close_clears_and_notifies_witness:
  "\<not> isClosing open_session
   \<and> device open_session = Some (printer_with 1 [iface_both]) \<and> isOpen open_session
   \<and> fst (close_usb True open_session) =
       open_session\<lparr>isOpen := False, endpoint := None, deviceToPcEndpoint := None\<rparr>
   \<and> events (snd (close_usb True open_session)) =
       [Native (DevClose (printer_with 1 [iface_both])), Callback None NoArg,
        Emit ''close'' (ADevice (Some (printer_with 1 [iface_both])))]
   \<and> \<not> isClosing unbound_session \<and> device unbound_session = None
   \<and> close_usb True unbound_session = (unbound_session, [(Callback None NoArg, unbound_session)])"
  using close_clears_and_notifies [of open_session] close_clears_and_notifies [of unbound_session]
  by (simp add: open_session_eq unbound_session_eq events_def close_usb_open close_usb_not_open)

subsection \<open>The guards of \<open>open\<close>\<close>

lemma open_usb_rejected:
  "isResetting s \<or> device s = None \<or> isOpen s \<or> (\<exists>d e. device s = Some d \<and> open_throws d = Some e)
     \<Longrightarrow> open_run platform cb order s = fst (open_usb cb s)"
  by (auto simp: open_run_def open_usb_def split: option.splits prod.splits)

lemma open_usb_first_event:
  "\<not> isResetting s \<Longrightarrow> device s = Some d \<Longrightarrow> \<not> isOpen s \<Longrightarrow>
     \<exists>t. snd (fst (open_usb cb s)) = (Native (DevOpen d), s) # t"
  by (simp add: open_usb_def block_simps split: option.splits prod.splits)

text \<open>
  Claim C6. \<open>open\<close> checks its guards in this order: it fails with \<open>Busy\<close> while
  resetting; then with \<open>NoDeviceBound\<close> without a device; then, already open, it
  succeeds at once with the session itself and no native call. Otherwise its first act is
  the native open of the device; when that throws, the callback gets the error of the
  transport and the session is as before: not open, no endpoint stored.
\<close>

theorem open_guard_order:
  "(isResetting s \<longrightarrow>
      open_run platform True order s = (s, [(Callback (Some Busy_resetting) NoArg, s)]))
   \<and> (\<not> isResetting s \<and> device s = None \<longrightarrow>
        open_run platform True order s = (s, [(Callback (Some NoDeviceBound) NoArg, s)]))
   \<and> (\<not> isResetting s \<and> device s = Some d \<and> isOpen s \<longrightarrow>
        open_run platform True order s = (s, [(Callback None Self, s)]))
   \<and> (\<not> isResetting s \<and> device s = Some d \<and> \<not> isOpen s \<longrightarrow>
        take 1 (snd (open_run platform cb order s)) = [(Native (DevOpen d), s)])
   \<and> (reachable s \<and> \<not> isResetting s \<and> device s = Some d \<and> \<not> isOpen s \<and> open_throws d = Some e \<longrightarrow>
        open_run platform True order s =
          (s, [(Native (DevOpen d), s), (Callback (Some e) NoArg, s)])
        \<and> \<not> isOpen s \<and> endpoint s = None \<and> deviceToPcEndpoint s = None)"
proof -
  have first: "take 1 (snd (open_run platform cb order s)) = [(Native (DevOpen d), s)]"
    if "\<not> isResetting s" "device s = Some d" "\<not> isOpen s"
  proof -
    from open_usb_first_event [OF that, of cb] obtain t pending
      where "open_usb cb s = ((s, (Native (DevOpen d), s) # t), pending)"
      using open_usb_session [of cb s] by (cases "open_usb cb s") auto
    then show ?thesis by (simp add: open_run_def split: prod.splits)
  qed
  have closed: "endpoint s = None \<and> deviceToPcEndpoint s = None" if "reachable s" "\<not> isOpen s"
    using reachable_consistent [OF that(1)] that(2) by (auto simp: consistent_def)
  show ?thesis
    using first closed
    by (simp add: open_usb_rejected open_usb_def block_simps)
qed

theorem open_guard_order_witness:
  "isResetting (open_session\<lparr>isResetting := True\<rparr>)
   \<and> open_run ''linux'' True [] (open_session\<lparr>isResetting := True\<rparr>) =
       (open_session\<lparr>isResetting := True\<rparr>,
        [(Callback (Some Busy_resetting) NoArg, open_session\<lparr>isResetting := True\<rparr>)])
   \<and> \<not> isResetting unbound_session \<and> device unbound_session = None
   \<and> open_run ''linux'' True [] unbound_session =
       (unbound_session, [(Callback (Some NoDeviceBound) NoArg, unbound_session)])
   \<and> \<not> isResetting open_session \<and> device open_session = Some (printer_with 1 [iface_both])
   \<and> isOpen open_session
   \<and> open_run ''linux'' True [iface_both] open_session =
       (open_session, [(Callback None Self, open_session)])
   \<and> reachable (session_on broken_device) \<and> \<not> isResetting (session_on broken_device)
   \<and> device (session_on broken_device) = Some broken_device
   \<and> \<not> isOpen (session_on broken_device)
   \<and> open_throws broken_device = Some (TransportError 5)
   \<and> open_run ''linux'' True [] (session_on broken_device) =
       (session_on broken_device,
        [(Native (DevOpen broken_device), session_on broken_device),
         (Callback (Some (TransportError 5)) NoArg, session_on broken_device)])
   \<and> endpoint (session_on broken_device) = None
   \<and> deviceToPcEndpoint (session_on broken_device) = None"
proof -
  have r: "reachable (session_on broken_device)"
    unfolding session_on_def by (rule reachable.new)
  have b: "session_on broken_device =
     \<lparr>device = Some broken_device, endpoint = None, deviceToPcEndpoint = None, isOpen = False,
      isClosing = False, isResetting = False, readInFlight = False, onDetach_set = True,
      onAttach_set = True\<rparr>"
    by (simp add: session_on_def USB_new_def)
  have t: "open_throws broken_device = Some (TransportError 5)"
    by (simp add: broken_device_def)
  show ?thesis
    using open_guard_order [where s = "open_session\<lparr>isResetting := True\<rparr>" and platform = "''linux''"
        and order = "[]"]
      open_guard_order [where s = unbound_session and platform = "''linux''" and order = "[]"]
      open_guard_order [where s = open_session and platform = "''linux''" and order = "[iface_both]"
        and d = "printer_with 1 [iface_both]"]
      open_guard_order [where s = "session_on broken_device" and platform = "''linux''"
        and order = "[]" and d = broken_device and e = "TransportError 5"]
      r t
    by (simp add: open_session_eq unbound_session_eq b)
qed

subsection \<open>\<open>reset\<close>\<close>

text \<open>
  The guards of \<open>reset\<close>, and what it does when the native reset throws while it is
  submitted: the resetting and the in-flight flag are cleared and the callback gets the
  error; the open flag and the endpoints stay as they are.
\<close>

lemma reset_usb_cases:
  "(device s = None \<longrightarrow> reset_usb True s = (s, [(Callback (Some NoDeviceToReset) NoArg, s)]))
   \<and> (device s = Some d \<and> isResetting s \<longrightarrow> reset_usb True s = (s, [(Callback None NoArg, s)]))
   \<and> (device s = Some d \<and> \<not> isResetting s \<and> reset_throws d = None \<longrightarrow>
        reset_usb True s =
          (s\<lparr>isResetting := True\<rparr>, [(Native (DevReset d), s\<lparr>isResetting := True\<rparr>)]))
   \<and> (device s = Some d \<and> \<not> isResetting s \<and> reset_throws d = Some e \<longrightarrow>
        reset_usb True s =
          (s\<lparr>isResetting := False, readInFlight := False\<rparr>,
           [(Native (DevReset d), s\<lparr>isResetting := True\<rparr>),
            (Callback (Some e) NoArg, s\<lparr>isResetting := False, readInFlight := False\<rparr>)]))"
  by (simp add: reset_usb_def block_simps)

text \<open>
  Claim C2. For a session with a device, when the completion of the device reset runs, with
  or without an error from the transport, the resetting flag, the in-flight flag, the open
  flag and both endpoints are cleared before the callback is called, and the callback gets
  the transport's error, or none. On the session it leaves, \<open>write\<close> fails with
  \<open>NotReady\<close> and \<open>read\<close> hands over an empty buffer, both without changing the
  session, while \<open>open\<close> starts again with the native open.
\<close>

theorem reset_completion_closes:
  "reachable s \<Longrightarrow> device s = Some d \<Longrightarrow>
     \<not> isResetting (fst (reset_complete err True s))
     \<and> \<not> readInFlight (fst (reset_complete err True s))
     \<and> \<not> isOpen (fst (reset_complete err True s))
     \<and> endpoint (fst (reset_complete err True s)) = None
     \<and> deviceToPcEndpoint (fst (reset_complete err True s)) = None
     \<and> snd (reset_complete err True s) = [(Callback err NoArg, fst (reset_complete err True s))]
     \<and> write_usb data True (fst (reset_complete err True s)) =
         (fst (reset_complete err True s),
          [(Callback (Some NotReady) NoArg, fst (reset_complete err True s))])
     \<and> read_usb True (fst (reset_complete err True s)) =
         (fst (reset_complete err True s),
          [(Callback None (Buf []), fst (reset_complete err True s))])
     \<and> take 1 (events (snd (open_run platform cb order (fst (reset_complete err True s))))) =
         [Native (DevOpen d)]"
proof -
  assume r: "reachable s" and d: "device s = Some d"
  let ?s = "fst (reset_complete err True s)"
  have s': "?s = s\<lparr>isResetting := False, readInFlight := False, isOpen := False,
                    endpoint := None, deviceToPcEndpoint := None\<rparr>"
    by (simp add: reset_complete_def block_simps)
  have c: "\<not> isClosing s"
    using reachable_consistent [OF r] by (simp add: consistent_def)
  have "\<not> isResetting ?s" "device ?s = Some d" "\<not> isOpen ?s"
    using d by (simp_all add: s')
  from open_usb_first_event [OF this, of cb] obtain t pending
    where "open_usb cb ?s = ((?s, (Native (DevOpen d), ?s) # t), pending)"
    using open_usb_session [of cb ?s] by (cases "open_usb cb ?s") auto
  then have o: "take 1 (events (snd (open_run platform cb order ?s))) = [Native (DevOpen d)]"
    by (simp add: open_run_def events_def split: prod.splits)
  show ?thesis
    using c o
    by (simp add: reset_complete_def write_usb_def read_usb_def block_simps)
qed

theorem reset_completion_closes_witness:
  "reachable open_session \<and> device open_session = Some (printer_with 1 [iface_both])
   \<and> fst (reset_complete (Some (TransportError 4)) True (open_session\<lparr>readInFlight := True\<rparr>)) =
       open_session\<lparr>isOpen := False, endpoint := None, deviceToPcEndpoint := None\<rparr>
   \<and> events (snd (reset_complete (Some (TransportError 4)) True open_session)) =
       [Callback (Some (TransportError 4)) NoArg]
   \<and> events (snd (reset_complete None True open_session)) = [Callback None NoArg]
   \<and> events (snd (write_usb [27, 64] True (fst (reset_complete None True open_session)))) =
       [Callback (Some NotReady) NoArg]
   \<and> events (snd (read_usb True (fst (reset_complete None True open_session)))) =
       [Callback None (Buf [])]"
  using reset_completion_closes [OF reachable_open_session, of "printer_with 1 [iface_both]" None "[27, 64]"]
    reset_completion_closes [OF reachable_open_session, of "printer_with 1 [iface_both]"
      "Some (TransportError 4)" "[27, 64]"]
    reachable_open_session
  by (simp add: open_session_eq reset_complete_def block_simps events_def)

subsection \<open>Endpoint pairs\<close>

lemma session_on_eq:
  "session_on dev =
     \<lparr>device = Some dev, endpoint = None, deviceToPcEndpoint = None, isOpen = False,
      isClosing = False, isResetting = False, readInFlight = False, onDetach_set = True,
      onAttach_set = True\<rparr>"
  by (simp add: session_on_def USB_new_def)

lemma reachable_session_on: "reachable (session_on dev)"
  unfolding session_on_def by (rule reachable.new)

lemma sample_interfaces:
  "\<not> raises platform iface_both" "offers_pair iface_both"
  "\<not> raises platform iface_out_only" "\<not> offers_pair iface_out_only"
  "\<not> raises platform iface_in_only" "\<not> offers_pair iface_in_only"
  "raises platform iface_unclaimable" "\<not> offers_pair iface_unclaimable"
  "setup_error platform iface_unclaimable = Some (TransportError 3)"
  by (simp_all add: raises_def offers_pair_def has_direction_def setup_error_def iface_both_def
      iface_out_only_def iface_in_only_def iface_unclaimable_def iface_with_def ep0_def ep1_def)

lemma reachable_closed:
  "reachable s \<Longrightarrow> \<not> isOpen s \<Longrightarrow> no_pair s"
  using reachable_consistent [of s] by (auto simp: consistent_def no_pair_def)

lemma pair_of_offers: "pair_of iface st \<Longrightarrow> offers_pair iface"
  by (auto simp: pair_of_def offers_pair_def has_direction_def)

lemma open_run_pair:
  assumes "reachable s" "\<not> isOpen s"
  shows "no_pair (fst (open_run platform cb order s))
       \<or> (\<exists>iface \<in> set order.
             (\<forall>d. device s = Some d \<longrightarrow> iface \<in> set (interfaces d))
             \<and> pair_of iface (fst (open_run platform cb order s)))"
proof -
  let ?done = "filter (\<lambda>i. i \<in> set (snd (open_usb cb s))) order"
  let ?s' = "fst (snd (deliver platform cb ?done 0 s))"
  from assms have np: "no_pair s" by (rule reachable_closed)
  have s': "fst (open_run platform cb order s) = ?s'"
    by (simp add: open_run_deliver)
  from deliver_pair [OF np, of platform cb ?done 0]
  consider "?s' = s" | i where "i \<in> set ?done" "pair_of i ?s'"
    by blast
  then show ?thesis
  proof cases
    case 1
    with np show ?thesis by (simp add: s')
  next
    case 2
    from 2(1) have "i \<in> set order" "\<forall>d. device s = Some d \<longrightarrow> i \<in> set (interfaces d)"
      using open_usb_pending [of i cb s] by simp_all
    with 2(2) show ?thesis unfolding s' by blast
  qed
qed

lemma open_run_snapshots:
  assumes "reachable s" "\<not> isOpen s" "x \<in> set (snd (open_run platform cb order s))"
  shows "no_pair (snd x)
       \<or> (\<exists>iface \<in> set order.
             (\<forall>d. device s = Some d \<longrightarrow> iface \<in> set (interfaces d))
             \<and> pair_of iface (snd x))"
proof -
  let ?done = "filter (\<lambda>i. i \<in> set (snd (open_usb cb s))) order"
  from assms(1,2) have np: "no_pair s" by (rule reachable_closed)
  from assms(3) consider "x \<in> set (snd (fst (open_usb cb s)))"
    | "x \<in> set (snd (snd (deliver platform cb ?done 0 s)))"
    by (auto simp: open_run_deliver)
  then show ?thesis
  proof cases
    case 1
    with open_usb_snapshots [of cb s] np show ?thesis by simp
  next
    case 2
    with deliver_snapshots [OF np, of platform cb ?done 0]
    consider "snd x = s" | i where "i \<in> set ?done" "pair_of i (snd x)"
      by blast
    then show ?thesis
    proof cases
      case 1
      with np show ?thesis by simp
    next
      case 2
      from 2(1) have "i \<in> set order" "\<forall>d. device s = Some d \<longrightarrow> i \<in> set (interfaces d)"
        using open_usb_pending [of i cb s] by simp_all
      with 2(2) show ?thesis by blast
    qed
  qed
qed

lemma open_run_exhausted:
  assumes r: "reachable s" and a: "\<not> isResetting s" "device s = Some d" "\<not> isOpen s"
      "open_throws d = None"
    and alt: "\<forall>i \<in> set (interfaces d). setAltSetting_throws i = None"
    and each: "\<forall>i \<in> set order. \<not> raises platform i \<and> \<not> offers_pair i"
    and ord: "set order \<subseteq> set (interfaces d)" "length order \<le> length (interfaces d)"
  shows "callbacks (snd (open_run platform True order s)) =
           (if order \<noteq> [] \<and> length order = length (interfaces d)
            then [Callback (Some EndpointPairNotFound) NoArg] else [])"
    and "fst (open_run platform True order s) = s"
    and "\<forall>x \<in> set (snd (open_run platform True order s)). no_pair (snd x)"
proof -
  from r a(3) have np: "no_pair s" by (rule reachable_closed)
  then have e: "endpoint s = None" by (simp add: no_pair_def)
  from ord have le: "0 + length order \<le> length (interfaces d)" by simp
  note run = open_run_accepted [OF a alt ord(1), of platform True]
  note del = deliver_exhausted [OF a(2) e each le]
  from run del show "callbacks (snd (open_run platform True order s)) =
           (if order \<noteq> [] \<and> length order = length (interfaces d)
            then [Callback (Some EndpointPairNotFound) NoArg] else [])"
    by simp
  from run del show "fst (open_run platform True order s) = s"
    by simp
  show "\<forall>x \<in> set (snd (open_run platform True order s)). no_pair (snd x)"
  proof
    fix x assume "x \<in> set (snd (open_run platform True order s))"
    from open_run_snapshots [OF r a(3) this] each pair_of_offers show "no_pair (snd x)"
      by blast
  qed
qed

text \<open>
  Claim C1. Whenever \<open>open\<close> enumerates the interfaces of a device, the session holds
  either no endpoint at all or an OUT and an IN endpoint of one and the same interface among
  those that completed, at the end of the run and at every moment an observer is called
  during it: an interface with one direction only contributes nothing and no partial pair
  is ever stored. On a device where no interface offers both directions (in particular one
  interface with only an OUT and another with only an IN endpoint) and every setup step
  succeeds, \<open>open\<close> fails with \<open>EndpointPairNotFound\<close> and the session is left as it was,
  without endpoints.
\<close>

theorem open_pair_same_interface:
  "(reachable s \<and> \<not> isOpen s \<longrightarrow>
      (no_pair (fst (open_run platform cb order s))
       \<or> (\<exists>iface \<in> set order.
             (\<forall>d. device s = Some d \<longrightarrow> iface \<in> set (interfaces d))
             \<and> pair_of iface (fst (open_run platform cb order s))))
      \<and> (\<forall>x \<in> set (snd (open_run platform cb order s)).
            no_pair (snd x)
            \<or> (\<exists>iface \<in> set order.
                  (\<forall>d. device s = Some d \<longrightarrow> iface \<in> set (interfaces d))
                  \<and> pair_of iface (snd x))))
   \<and> (reachable s \<and> \<not> isResetting s \<and> device s = Some d \<and> \<not> isOpen s \<and> open_throws d = None
       \<and> (\<forall>i \<in> set (interfaces d).
             setAltSetting_throws i = None \<and> \<not> raises platform i \<and> \<not> offers_pair i)
       \<and> interfaces d \<noteq> [] \<and> set order \<subseteq> set (interfaces d)
       \<and> length order = length (interfaces d) \<longrightarrow>
         callbacks (snd (open_run platform True order s)) =
           [Callback (Some EndpointPairNotFound) NoArg]
         \<and> fst (open_run platform True order s) = s
         \<and> no_pair s \<and> \<not> isOpen s
         \<and> (\<forall>x \<in> set (snd (open_run platform True order s)). no_pair (snd x)))"
proof (intro conjI impI)
  assume "reachable s \<and> \<not> isOpen s"
  then show "no_pair (fst (open_run platform cb order s))
       \<or> (\<exists>iface \<in> set order.
             (\<forall>d. device s = Some d \<longrightarrow> iface \<in> set (interfaces d))
             \<and> pair_of iface (fst (open_run platform cb order s)))"
    by (simp add: open_run_pair)
next
  assume "reachable s \<and> \<not> isOpen s"
  then show "\<forall>x \<in> set (snd (open_run platform cb order s)).
            no_pair (snd x)
            \<or> (\<exists>iface \<in> set order.
                  (\<forall>d. device s = Some d \<longrightarrow> iface \<in> set (interfaces d))
                  \<and> pair_of iface (snd x))"
    using open_run_snapshots [of s _ platform cb order] by blast
next
  assume h: "reachable s \<and> \<not> isResetting s \<and> device s = Some d \<and> \<not> isOpen s \<and> open_throws d = None
       \<and> (\<forall>i \<in> set (interfaces d).
             setAltSetting_throws i = None \<and> \<not> raises platform i \<and> \<not> offers_pair i)
       \<and> interfaces d \<noteq> [] \<and> set order \<subseteq> set (interfaces d)
       \<and> length order = length (interfaces d)"
  then have r: "reachable s" and a: "\<not> isResetting s" "device s = Some d" "\<not> isOpen s"
      "open_throws d = None"
    and alt: "\<forall>i \<in> set (interfaces d). setAltSetting_throws i = None"
    and each: "\<forall>i \<in> set order. \<not> raises platform i \<and> \<not> offers_pair i"
    and ord: "set order \<subseteq> set (interfaces d)" "length order \<le> length (interfaces d)"
    and full: "length order = length (interfaces d)" and ne: "order \<noteq> []"
    by auto
  note ex = open_run_exhausted [OF r a alt each ord]
  from ex(1) full ne show "callbacks (snd (open_run platform True order s)) =
           [Callback (Some EndpointPairNotFound) NoArg]" by simp
  from ex(2) show "fst (open_run platform True order s) = s" .
  from r a(3) show "no_pair s" by (rule reachable_closed)
  from a(3) show "\<not> isOpen s" .
  from ex(3) show "\<forall>x \<in> set (snd (open_run platform True order s)). no_pair (snd x)" .
qed

lemma split_session_facts:
  "reachable split_session" "\<not> isResetting split_session"
  "device split_session = Some (printer_with 5 [iface_out_only, iface_in_only])"
  "\<not> isOpen split_session"
  "open_throws (printer_with 5 [iface_out_only, iface_in_only]) = None"
  "interfaces (printer_with 5 [iface_out_only, iface_in_only]) = [iface_out_only, iface_in_only]"
  "setAltSetting_throws iface_out_only = None" "setAltSetting_throws iface_in_only = None"
  by (simp add: split_session_def reachable_session_on)
    (simp_all add: split_session_def session_on_eq printer_with_def
      iface_out_only_def iface_in_only_def iface_with_def)


lemma pair_of_open_session: "pair_of iface_both open_session"
  by (simp add: pair_of_def open_session_eq iface_both_def iface_with_def ep0_def ep1_def)

theorem open_pair_same_interface_witness:
  "reachable (session_on (printer_with 1 [iface_both]))
   \<and> \<not> isOpen (session_on (printer_with 1 [iface_both]))
   \<and> fst (open_run ''linux'' True [iface_both] (session_on (printer_with 1 [iface_both]))) =
       open_session
   \<and> pair_of iface_both open_session \<and> \<not> no_pair open_session
   \<and> reachable split_session \<and> \<not> isResetting split_session
   \<and> device split_session = Some (printer_with 5 [iface_out_only, iface_in_only])
   \<and> \<not> isOpen split_session
   \<and> \<not> offers_pair iface_out_only \<and> \<not> offers_pair iface_in_only
   \<and> callbacks (snd (open_run ''linux'' True [iface_in_only, iface_out_only] split_session)) =
       [Callback (Some EndpointPairNotFound) NoArg]
   \<and> fst (open_run ''linux'' True [iface_in_only, iface_out_only] split_session) = split_session
   \<and> no_pair split_session"
proof -
  let ?s = "session_on (printer_with 1 [iface_both])"
  let ?d = "printer_with 5 [iface_out_only, iface_in_only]"
  let ?order = "[iface_in_only, iface_out_only]"
  have r: "reachable ?s" by (rule reachable_session_on)
  have o: "\<not> isOpen ?s" by (simp add: session_on_eq)
  have eq: "fst (open_run ''linux'' True [iface_both] ?s) = open_session"
    by (simp add: open_session_def)
  have n: "\<not> no_pair open_session" by (simp add: open_session_eq no_pair_def)
  from open_pair_same_interface [where s = ?s and platform = "''linux''" and cb = True
      and order = "[iface_both]"] r o
  have "no_pair (fst (open_run ''linux'' True [iface_both] ?s))
     \<or> (\<exists>iface \<in> set [iface_both]. (\<forall>d. device ?s = Some d \<longrightarrow> iface \<in> set (interfaces d))
           \<and> pair_of iface (fst (open_run ''linux'' True [iface_both] ?s)))"
    by blast
  then have "no_pair open_session \<or> pair_of iface_both open_session"
    unfolding eq by auto
  with n have p: "pair_of iface_both open_session" by blast
  have h: "reachable split_session \<and> \<not> isResetting split_session \<and> device split_session = Some ?d
       \<and> \<not> isOpen split_session \<and> open_throws ?d = None
       \<and> (\<forall>i \<in> set (interfaces ?d).
             setAltSetting_throws i = None \<and> \<not> raises ''linux'' i \<and> \<not> offers_pair i)
       \<and> interfaces ?d \<noteq> [] \<and> set ?order \<subseteq> set (interfaces ?d)
       \<and> length ?order = length (interfaces ?d)"
    by (simp add: split_session_facts sample_interfaces)
  from open_pair_same_interface [where s = split_session and platform = "''linux''"
      and order = ?order and d = ?d] h
  have "callbacks (snd (open_run ''linux'' True ?order split_session)) =
           [Callback (Some EndpointPairNotFound) NoArg]
         \<and> fst (open_run ''linux'' True ?order split_session) = split_session
         \<and> no_pair split_session"
    by blast
  with r o eq n p show ?thesis
    by (simp add: split_session_facts sample_interfaces)
qed

subsection \<open>Completions of \<open>open\<close>\<close>



lemma error_callbacks_simps:
  "error_callbacks platform [] = []"
  "error_callbacks platform (i # ifaces) =
     (if raises platform i then Callback (setup_error platform i) NoArg # error_callbacks platform ifaces
      else error_callbacks platform ifaces)"
  by (simp_all add: error_callbacks_def)

lemma error_callbacks_none:
  "\<forall>i \<in> set ifaces. \<not> raises platform i \<Longrightarrow> error_callbacks platform ifaces = []"
  by (induction ifaces) (simp_all add: error_callbacks_simps)

lemma length_error_callbacks:
  "length (error_callbacks platform ifaces) = length (filter (raises platform) ifaces)"
  by (simp add: error_callbacks_def)



lemma deliver_found_callback_list:
  "device s = Some d \<Longrightarrow> endpoint s \<noteq> None \<Longrightarrow>
     callbacks (snd (snd (deliver platform True ifaces counter s))) =
       error_callbacks platform ifaces"
proof (induction ifaces arbitrary: counter)
  case Nil
  then show ?case by (simp add: callbacks_Nil error_callbacks_simps)
next
  case (Cons i ifaces)
  from Cons.prems have np: "\<not> no_pair s" by (simp add: no_pair_def)
  then have st: "fst (snd (iface_ready platform True i counter s)) = s"
    by (simp add: ready_state_same)
  from Cons.IH [OF Cons.prems] Cons.prems np show ?case
    by (simp add: deliver_Cons st callbacks_append ready_callbacks error_callbacks_simps
        del: deliver.simps(2))
qed


text \<open>
  The completions of a call of \<open>open\<close> that run when a pair is already stored (another
  call is pending and its completion came first) call the callback for the interfaces that
  raise only: when none raises, that call never completes.
\<close>

lemma open_overlap_silent:
  "device s = Some d \<Longrightarrow> endpoint s \<noteq> None \<Longrightarrow> \<forall>i \<in> set ifaces. \<not> raises platform i \<Longrightarrow>
     callbacks (snd (snd (deliver platform True ifaces counter s))) = []"
  by (simp add: deliver_found_callback_list error_callbacks_none)



subsection \<open>The promise of \<open>USB.getDevice\<close>\<close>

lemma settle_kept: "p \<noteq> Pending \<Longrightarrow> settle p ev = p"
  by (cases p) simp_all

lemma settle_settled: "p \<noteq> Pending \<Longrightarrow> foldl settle p evs = p"
  by (induction evs) (simp_all add: settle_kept)

lemma settle_first:
  "foldl settle Pending evs =
     (case find is_callback evs of
        None \<Rightarrow> Pending
      | Some (Callback None v) \<Rightarrow> Resolved
      | Some (Callback (Some e) v) \<Rightarrow> Rejected e
      | Some ev \<Rightarrow> Pending)"
proof (induction evs)
  case Nil
  then show ?case by simp
next
  case (Cons ev evs)
  then show ?case
  proof (cases ev)
    case (Callback err v)
    then show ?thesis by (cases err) (simp_all add: settle_settled)
  qed simp_all
qed

lemma find_callback_None: "find is_callback evs = None \<longleftrightarrow> filter is_callback evs = []"
  by (auto simp: find_None_iff filter_empty_conv)

lemma find_callback_Some:
  assumes "find is_callback evs = Some ev"
  shows "\<exists>err v. ev = Callback err v"
proof -
  from assms have "is_callback ev" by (auto simp: find_Some_iff)
  then show ?thesis by (cases ev) simp_all
qed

text \<open>
  Claim C10. \<open>USB.getDevice\<close> makes a new session and calls \<open>open\<close> on it. The
  promise is resolved (with that session) exactly when the first call of the callback of
  \<open>open\<close> carries no error, and rejected with an error exactly when the first call
  carries that error; it stays pending exactly when the callback is never called.
\<close>

theorem getDevice_first_completion:
  "snd (getDevice tr platform order vid pid) = open_run platform True order (USB_new tr vid pid)
   \<and> (fst (getDevice tr platform order vid pid) = Resolved \<longleftrightarrow>
        (\<exists>v. find is_callback (events (snd (open_run platform True order (USB_new tr vid pid)))) =
               Some (Callback None v)))
   \<and> (fst (getDevice tr platform order vid pid) = Rejected e \<longleftrightarrow>
        (\<exists>v. find is_callback (events (snd (open_run platform True order (USB_new tr vid pid)))) =
               Some (Callback (Some e) v)))
   \<and> (fst (getDevice tr platform order vid pid) = Pending \<longleftrightarrow>
        callbacks (snd (open_run platform True order (USB_new tr vid pid))) = [])"
proof -
  let ?evs = "events (snd (open_run platform True order (USB_new tr vid pid)))"
  have g: "getDevice tr platform order vid pid =
      (foldl settle Pending ?evs, open_run platform True order (USB_new tr vid pid))"
    by (simp add: getDevice_def split: prod.splits)
  show ?thesis
  proof (cases "find is_callback ?evs")
    case None
    then have "filter is_callback ?evs = []"
      by (simp add: find_callback_None)
    with None show ?thesis
      by (simp add: g settle_first callbacks_def)
  next
    case (Some ev)
    from find_callback_Some [OF this] obtain err v where ev: "ev = Callback err v" by blast
    from Some have "filter is_callback ?evs \<noteq> []"
      using find_callback_None [of ?evs] by simp
    with Some ev show ?thesis
      by (cases err) (simp_all add: g settle_first callbacks_def)
  qed
qed

lemma shop_sessions:
  "USB_new shop (Num 1208) (Num 514) = session_on (printer_with 1 [iface_both])"
  "USB_new shop (Num 1208) (Num 515) = unbound_session"
  by (simp_all add: USB_new_def shop_def session_on_eq unbound_session_eq)

lemma open_sample_completion:
  "find is_callback
     (events (snd (open_run ''linux'' True [iface_both] (session_on (printer_with 1 [iface_both])))))
     = Some (Callback None Self)"
  by (simp add: open_run_def open_usb_def session_on_eq
      printer_with_def iface_both_def iface_with_def iface_ready_def detach_driver_def
      scan_both record_pair_def block_simps events_def)

lemma open_unbound_completion:
  "find is_callback (events (snd (open_run ''linux'' True [] unbound_session)))
     = Some (Callback (Some NoDeviceBound) NoArg)"
  by (simp add: open_run_def open_usb_def unbound_session_eq block_simps events_def)

theorem getDevice_first_completion_witness:
  "fst (getDevice shop ''linux'' [iface_both] (Num 1208) (Num 514)) = Resolved
   \<and> fst (snd (getDevice shop ''linux'' [iface_both] (Num 1208) (Num 514))) = open_session
   \<and> fst (getDevice shop ''linux'' [] (Num 1208) (Num 515)) = Rejected NoDeviceBound"
proof -
  from getDevice_first_completion [of shop "''linux''" "[iface_both]" "Num 1208" "Num 514"]
    open_sample_completion
  have a: "fst (getDevice shop ''linux'' [iface_both] (Num 1208) (Num 514)) = Resolved"
    and b: "snd (getDevice shop ''linux'' [iface_both] (Num 1208) (Num 514)) =
            open_run ''linux'' True [iface_both] (session_on (printer_with 1 [iface_both]))"
    unfolding shop_sessions by blast+
  from getDevice_first_completion [of shop "''linux''" "[]" "Num 1208" "Num 515" NoDeviceBound]
    open_unbound_completion
  have c: "fst (getDevice shop ''linux'' [] (Num 1208) (Num 515)) = Rejected NoDeviceBound"
    unfolding shop_sessions by blast
  from a b c show ?thesis
    by (simp add: open_session_def)
qed

end
